theory Spec2Isabelle
  imports Main "HOL-Library.Word"
begin

section \<open>TinyWar engine (src/engine.c): a shallow embedding\<close>

text \<open>
  The engine is a single C file over SDL2. Its state is a handful of file-static
  variables and four singly linked lists of heap blocks. Every function of engine.c that
  a property below is about is translated here; what the environment supplies (the
  answers of \<^verbatim>\<open>malloc\<close> and of SDL, the pointer position, the event queue, the tick
  counter) is an argument of the translated function.
\<close>

subsection \<open>C integers\<close>

text \<open>
  A C \<^verbatim>\<open>int\<close> is a 32-bit two's complement value, read with \<open>sint\<close>. Signed
  addition that leaves the range has no defined result in C: \<open>int_add\<close> returns
  \<open>None\<close> there.
\<close>

type_synonym cint = "32 word"

definition int_add :: "cint \<Rightarrow> cint \<Rightarrow> cint option" where
  "int_add a b =
     (if - (2 ^ 31) \<le> sint a + sint b \<and> sint a + sint b < 2 ^ 31 then Some (a + b) else None)"

definition int_lt :: "cint \<Rightarrow> cint \<Rightarrow> bool" where
  "int_lt a b = (sint a < sint b)"

definition int_le :: "cint \<Rightarrow> cint \<Rightarrow> bool" where
  "int_le a b = (sint a \<le> sint b)"

definition int_gt :: "cint \<Rightarrow> cint \<Rightarrow> bool" where
  "int_gt a b = (sint a > sint b)"

definition int_ge :: "cint \<Rightarrow> cint \<Rightarrow> bool" where
  "int_ge a b = (sint a \<ge> sint b)"

subsection \<open>Pointers and heap blocks\<close>

text \<open>
  A pointer is \<open>None\<close> (NULL) or the address of a block. Each struct type has a heap of
  its own. \<^verbatim>\<open>free\<close> does not erase a block: the bytes stay where they are until the
  allocator hands the block out again, so a freed block keeps its last contents and is
  marked \<open>Freed\<close>. Reading or writing a freed block has no defined behaviour in C; the
  model carries on with the stale contents, as the machine does, and raises the \<open>stale\<close>
  flag of the state.
\<close>

type_synonym addr = nat
type_synonym ptr = "addr option"

datatype 'a block = Live 'a | Freed 'a

type_synonym 'a heap = "addr \<Rightarrow> 'a block option"

fun contents :: "'a block \<Rightarrow> 'a" where
  "contents (Live v) = v"
| "contents (Freed v) = v"

fun is_freed :: "'a block \<Rightarrow> bool" where
  "is_freed (Live v) = False"
| "is_freed (Freed v) = True"

fun put :: "'a block \<Rightarrow> 'a \<Rightarrow> 'a block" where
  "put (Live v) w = Live w"
| "put (Freed v) w = Freed w"

subsection \<open>The structs of engine.h\<close>

text \<open>
  Modelled from the spec: the struct declarations of engine.h (\<^verbatim>\<open>Color\<close>, \<^verbatim>\<open>Engine\<close>,
  \<^verbatim>\<open>Object\<close>, \<^verbatim>\<open>ObjectTemplate\<close>, \<^verbatim>\<open>Tilemap\<close>, \<^verbatim>\<open>Tile\<close> and the four list
  nodes), a header that is not among the sources. The fields are those of the spec's data
  model, under the names by which engine.c reads and writes them; every coordinate, size
  and count is assigned from an \<^verbatim>\<open>int\<close> parameter, and a colour is handed to SDL as
  four bytes.
\<close>

record Color =
  c_r :: "8 word"
  c_g :: "8 word"
  c_b :: "8 word"
  c_a :: "8 word"

record Engine =
  window :: addr
  renderer :: addr
  isRunning :: bool
  e_width :: cint
  e_height :: cint
  fps :: cint

record Object =
  o_id :: cint
  o_texture :: ptr
  o_x :: cint
  o_y :: cint
  o_width :: cint
  o_height :: cint
  o_hitbox :: bool
  o_data :: ptr

record ObjectTemplate =
  ot_texture :: ptr
  ot_width :: cint
  ot_height :: cint
  ot_hitbox :: bool

record Tilemap =
  tm_texture :: ptr
  tile_width :: cint
  tile_height :: cint
  spacing :: cint
  nb_rows :: cint
  nb_cols :: cint

record Tile =
  t_tilemap :: addr
  t_row :: cint
  t_col :: cint

text \<open>
  \<^verbatim>\<open>TextureList\<close>, \<^verbatim>\<open>ObjectList\<close>, \<^verbatim>\<open>ObjectTemplateList\<close> and \<^verbatim>\<open>Font\<close> are the
  same node: a payload (\<^verbatim>\<open>texture\<close>, \<^verbatim>\<open>object\<close>, \<^verbatim>\<open>object_template\<close>,
  \<^verbatim>\<open>font\<close>), the node's own copy of the name and
  the \<^verbatim>\<open>next\<close> pointer. The copy of the name is reachable through its node only and is
  freed with it, so it is kept inside the node. Names are C strings, compared by
  \<^verbatim>\<open>strcmp\<close>: equal exactly when the byte sequences are.
\<close>

record node =
  payload :: addr
  node_name :: string
  node_next :: ptr

datatype error =
    EngineNotInitialized
  | EngineAlreadyInitialized
  | AllocationFailed
  | TileOutOfBounds
  | ObjectNotFoundById cint
  | ObjectNotFoundByName string
  | TemplateNotFound string
  | FontNotFound string
  | TextureNotFound string
  | InvalidPointer addr
  | SignedOverflow
  | DivisionByZero
  | BackendFailure
  | BufferOverflow

record engine_state =
  engine :: "Engine option"
  object_id :: cint
  object_list :: ptr
  object_template_list :: ptr
  font_list :: ptr
  color :: Color
  olist_mem :: "node heap"
  object_mem :: "Object heap"
  tlist_mem :: "node heap"
  template_mem :: "ObjectTemplate heap"
  font_mem :: "node heap"
  tile_mem :: "Tile heap"
  tilemap_mem :: "Tilemap heap"
  closed_fonts :: "addr list"
  draw_color :: Color
  canvas :: "(string \<times> cint list \<times> Color) list"
  stale :: bool
  texture_list :: ptr
  texture_mem :: "node heap"
  destroyed_textures :: "addr list"

text \<open>\<^verbatim>\<open>_assert_engine_init\<close>: a diagnostic and \<^verbatim>\<open>exit(1)\<close> while \<^verbatim>\<open>_engine\<close> is NULL.\<close>

definition assert_engine_init :: "engine_state \<Rightarrow> error + unit" where
  "assert_engine_init s = (case engine s of None \<Rightarrow> Inl EngineNotInitialized | Some e \<Rightarrow> Inr ())"

text \<open>The static initialisers of engine.c: the state at process start.\<close>

definition opaque_black :: Color where
  "opaque_black = \<lparr>c_r = 0, c_g = 0, c_b = 0, c_a = 255\<rparr>"

definition initial_state :: engine_state where
  "initial_state =
     \<lparr>engine = None, object_id = 0, object_list = None, object_template_list = None,
      font_list = None, color = opaque_black,
      olist_mem = Map.empty, object_mem = Map.empty, tlist_mem = Map.empty,
      template_mem = Map.empty, font_mem = Map.empty, tile_mem = Map.empty,
      tilemap_mem = Map.empty, closed_fonts = [], draw_color = opaque_black, canvas = [],
      stale = False,
      texture_list = None, texture_mem = Map.empty, destroyed_textures = []\<rparr>"

text \<open>
  \<^verbatim>\<open>engine_init\<close>. The argument \<open>backend\<close> is what the environment answered: \<open>None\<close>
  when \<^verbatim>\<open>malloc\<close> or one of the SDL calls failed (each failure is fatal), otherwise the
  window and the renderer.
\<close>

definition engine_init :: "engine_state \<Rightarrow> string \<Rightarrow> cint \<Rightarrow> cint \<Rightarrow> cint \<Rightarrow> (addr \<times> addr) option \<Rightarrow> error + engine_state" where
  "engine_init s title width height fps_arg backend =
     (case engine s of
        Some e \<Rightarrow> Inl EngineAlreadyInitialized
      | None \<Rightarrow>
         (case backend of
            None \<Rightarrow> Inl BackendFailure
          | Some (w, rd) \<Rightarrow>
             Inr (s\<lparr>engine := Some \<lparr>window = w, renderer = rd, isRunning = True,
                                    e_width = width, e_height = height, fps = fps_arg\<rparr>,
                    draw_color := opaque_black\<rparr>)))"

text \<open>Dereferencing: the contents of the block and whether the block had been freed.\<close>

definition deref :: "'a heap \<Rightarrow> addr \<Rightarrow> error + ('a \<times> bool)" where
  "deref h p = (case h p of None \<Rightarrow> Inl (InvalidPointer p) | Some blk \<Rightarrow> Inr (contents blk, is_freed blk))"

subsection \<open>Hitboxes\<close>

text \<open>
  \<^verbatim>\<open>hitbox_is_colliding\<close>: four comparisons joined by \<^verbatim>\<open>&&\<close>, which evaluates its right
  operand only when the left one holds. It does not assert that the engine is initialised.
\<close>

definition hitbox_is_colliding :: "Object \<Rightarrow> Object \<Rightarrow> error + bool" where
  "hitbox_is_colliding hitbox1 hitbox2 =
     (case int_add (o_x hitbox2) (o_width hitbox2) of
        None \<Rightarrow> Inl SignedOverflow
      | Some r1 \<Rightarrow>
         (if \<not> int_lt (o_x hitbox1) r1 then Inr False
          else (case int_add (o_x hitbox1) (o_width hitbox1) of
                  None \<Rightarrow> Inl SignedOverflow
                | Some r2 \<Rightarrow>
                   (if \<not> int_gt r2 (o_x hitbox2) then Inr False
                    else (case int_add (o_y hitbox2) (o_height hitbox2) of
                            None \<Rightarrow> Inl SignedOverflow
                          | Some r3 \<Rightarrow>
                             (if \<not> int_lt (o_y hitbox1) r3 then Inr False
                              else (case int_add (o_y hitbox1) (o_height hitbox1) of
                                      None \<Rightarrow> Inl SignedOverflow
                                    | Some r4 \<Rightarrow> Inr (int_gt r4 (o_y hitbox2)))))))))"

text \<open>The rectangle \<open>{x, y, w, h}\<close> as an object; the other fields play no part.\<close>

definition box :: "int \<Rightarrow> int \<Rightarrow> int \<Rightarrow> int \<Rightarrow> Object" where
  "box x y w h =
     \<lparr>o_id = 0, o_texture = None, o_x = word_of_int x, o_y = word_of_int y,
      o_width = word_of_int w, o_height = word_of_int h, o_hitbox = True, o_data = None\<rparr>"

text \<open>The sums of a position and a size that the comparisons use fit a C \<^verbatim>\<open>int\<close>.\<close>

definition extent_ok :: "Object \<Rightarrow> bool" where
  "extent_ok ob \<longleftrightarrow>
     - (2 ^ 31) \<le> sint (o_x ob) + sint (o_width ob) \<and> sint (o_x ob) + sint (o_width ob) < 2 ^ 31 \<and>
     - (2 ^ 31) \<le> sint (o_y ob) + sint (o_height ob) \<and> sint (o_y ob) + sint (o_height ob) < 2 ^ 31"

subsection \<open>Hovering\<close>

text \<open>
  \<^verbatim>\<open>object_is_hovered\<close>: the pointer position comes from \<^verbatim>\<open>SDL_GetMouseState\<close>, an
  input of the model.
\<close>

definition object_is_hovered :: "engine_state \<Rightarrow> cint \<times> cint \<Rightarrow> Object \<Rightarrow> error + bool" where
  "object_is_hovered s mouse object =
     (case assert_engine_init s of
        Inl e \<Rightarrow> Inl e
      | Inr u \<Rightarrow>
         (let mouseX = fst mouse; mouseY = snd mouse in
          if \<not> int_ge mouseX (o_x object) then Inr False
          else (case int_add (o_x object) (o_width object) of
                  None \<Rightarrow> Inl SignedOverflow
                | Some r1 \<Rightarrow>
                   (if \<not> int_le mouseX r1 then Inr False
                    else if \<not> int_ge mouseY (o_y object) then Inr False
                    else (case int_add (o_y object) (o_height object) of
                            None \<Rightarrow> Inl SignedOverflow
                          | Some r2 \<Rightarrow> Inr (int_le mouseY r2))))))"

subsection \<open>Tiles\<close>

text \<open>
  \<^verbatim>\<open>get_tile\<close>: the bound check, then \<^verbatim>\<open>malloc\<close> of the tile. What \<^verbatim>\<open>malloc\<close> returned
  is the argument \<open>new\<close>: NULL or the address of the block.
\<close>

definition get_tile :: "engine_state \<Rightarrow> addr \<Rightarrow> cint \<Rightarrow> cint \<Rightarrow> ptr \<Rightarrow> error + (addr \<times> engine_state)" where
  "get_tile s tilemap tile_row tile_col new =
     (case assert_engine_init s of
        Inl e \<Rightarrow> Inl e
      | Inr u \<Rightarrow>
         (case deref (tilemap_mem s) tilemap of
            Inl e \<Rightarrow> Inl e
          | Inr (tm, fr) \<Rightarrow>
             (if int_ge tile_row (nb_rows tm) \<or> int_ge tile_col (nb_cols tm) then Inl TileOutOfBounds
              else (case new of
                      None \<Rightarrow> Inl AllocationFailed
                    | Some tile \<Rightarrow>
                       Inr (tile,
                            s\<lparr>tile_mem := (tile_mem s)(tile \<mapsto>
                                 Live \<lparr>t_tilemap = tilemap, t_row = tile_row, t_col = tile_col\<rparr>),
                              stale := (stale s \<or> fr)\<rparr>)))))"

text \<open>
  \<^verbatim>\<open>create_tilemap\<close>: \<open>new\<close> is what \<^verbatim>\<open>malloc\<close> returned and \<open>tex\<close> what
  \<^verbatim>\<open>IMG_LoadTexture\<close> returned.
\<close>

definition create_tilemap :: "engine_state \<Rightarrow> cint \<Rightarrow> cint \<Rightarrow> cint \<Rightarrow> cint \<Rightarrow> cint \<Rightarrow> ptr \<Rightarrow> ptr \<Rightarrow> error + (addr \<times> engine_state)" where
  "create_tilemap s tw th sp rows cols new tex =
     (case assert_engine_init s of
        Inl e \<Rightarrow> Inl e
      | Inr u \<Rightarrow>
         (case new of
            None \<Rightarrow> Inl AllocationFailed
          | Some tilemap \<Rightarrow>
             (case tex of
                None \<Rightarrow> Inl BackendFailure
              | Some t \<Rightarrow>
                 Inr (tilemap,
                      s\<lparr>tilemap_mem := (tilemap_mem s)(tilemap \<mapsto>
                           Live \<lparr>tm_texture = Some t, tile_width = tw, tile_height = th,
                                 spacing = sp, nb_rows = rows, nb_cols = cols\<rparr>)\<rparr>))))"

text \<open>A running engine with one 4 x 3 tilemap at address 7, built by the calls above.\<close>

definition started :: engine_state where
  "started = (case engine_init initial_state ''TinyWar'' 800 600 60 (Some (1, 2)) of
                Inr s \<Rightarrow> s | Inl e \<Rightarrow> initial_state)"

definition with_tilemap :: engine_state where
  "with_tilemap = (case create_tilemap started 16 16 1 4 3 (Some 7) (Some 9) of
                     Inr (p, s) \<Rightarrow> s | Inl e \<Rightarrow> started)"

subsection \<open>Results, \<^verbatim>\<open>free\<close> and pointer writes\<close>

text \<open>
  A call either does not return (\<open>None\<close>: a loop that never reaches NULL), or ends the
  process with a diagnostic or steps outside what the model can follow (\<open>Some (Inl e)\<close>),
  or returns (\<open>Some (Inr v)\<close>).
\<close>

type_synonym 'a result = "(error + 'a) option"

definition touch :: "engine_state \<Rightarrow> bool \<Rightarrow> engine_state" where
  "touch s fr = s\<lparr>stale := (stale s \<or> fr)\<rparr>"

text \<open>\<^verbatim>\<open>free(p)\<close>: the block stays, marked freed. Freeing what is not a live block is flagged.\<close>

definition release :: "'a heap \<Rightarrow> addr \<Rightarrow> 'a heap \<times> bool" where
  "release h p =
     (case h p of
        None \<Rightarrow> (h, True)
      | Some (Live v) \<Rightarrow> (h(p \<mapsto> Freed v), False)
      | Some (Freed v) \<Rightarrow> (h, True))"

text \<open>\<^verbatim>\<open>p->next = q\<close>.\<close>

definition set_next :: "node heap \<Rightarrow> addr \<Rightarrow> ptr \<Rightarrow> error + (node heap \<times> bool)" where
  "set_next h p q =
     (case h p of
        None \<Rightarrow> Inl (InvalidPointer p)
      | Some blk \<Rightarrow> Inr (h(p \<mapsto> put blk ((contents blk)\<lparr>node_next := q\<rparr>)), is_freed blk))"

subsection \<open>The texture registry\<close>

text \<open>
  \<^verbatim>\<open>_add_to_texture_list\<close>: \<open>name_new\<close> and \<open>item_new\<close> are what the two calls of
  \<^verbatim>\<open>malloc\<close> returned. A texture is a handle of SDL; the node holds it as its payload.
\<close>

partial_function (option) add_to_texture_list_scan :: "engine_state \<Rightarrow> addr \<Rightarrow> (addr \<times> engine_state) result" where
  "add_to_texture_list_scan s current =
     (case deref (texture_mem s) current of
        Inl e \<Rightarrow> Some (Inl e)
      | Inr (cn, fr) \<Rightarrow>
         (case node_next cn of
            None \<Rightarrow> Some (Inr (current, touch s fr))
          | Some nx \<Rightarrow> add_to_texture_list_scan (touch s fr) nx))"

definition add_to_texture_list :: "engine_state \<Rightarrow> addr \<Rightarrow> string \<Rightarrow> ptr \<Rightarrow> ptr \<Rightarrow> engine_state result" where
  "add_to_texture_list s texture nm name_new item_new =
     (case name_new of
        None \<Rightarrow> Some (Inl AllocationFailed)
      | Some texture_name \<Rightarrow>
         (case item_new of
            None \<Rightarrow> Some (Inl AllocationFailed)
          | Some texture_list_item \<Rightarrow>
             (let s1 = s\<lparr>texture_mem := (texture_mem s)(texture_list_item \<mapsto>
                            Live \<lparr>payload = texture, node_name = nm, node_next = None\<rparr>)\<rparr>
              in case texture_list s1 of
                   None \<Rightarrow> Some (Inr (s1\<lparr>texture_list := Some texture_list_item\<rparr>))
                 | Some head \<Rightarrow>
                    (case add_to_texture_list_scan s1 head of
                       None \<Rightarrow> None
                     | Some (Inl e) \<Rightarrow> Some (Inl e)
                     | Some (Inr (tl_node, s2)) \<Rightarrow>
                        (case set_next (texture_mem s2) tl_node (Some texture_list_item) of
                           Inl e \<Rightarrow> Some (Inl e)
                         | Inr (h, fr) \<Rightarrow> Some (Inr (touch (s2\<lparr>texture_mem := h\<rparr>) fr)))))))"

text \<open>\<^verbatim>\<open>load_texture\<close>: \<open>tex_new\<close> is what \<^verbatim>\<open>IMG_LoadTexture\<close> returned.\<close>

definition load_texture :: "engine_state \<Rightarrow> string \<Rightarrow> string \<Rightarrow> ptr \<Rightarrow> ptr \<Rightarrow> ptr \<Rightarrow> (addr \<times> engine_state) result" where
  "load_texture s filename nm tex_new name_new item_new =
     (case assert_engine_init s of
        Inl e \<Rightarrow> Some (Inl e)
      | Inr u \<Rightarrow>
         (case tex_new of
            None \<Rightarrow> Some (Inl BackendFailure)
          | Some texture \<Rightarrow>
             (case add_to_texture_list s texture nm name_new item_new of
                None \<Rightarrow> None
              | Some (Inl e) \<Rightarrow> Some (Inl e)
              | Some (Inr s1) \<Rightarrow> Some (Inr (texture, s1)))))"



text \<open>\<^verbatim>\<open>SDL_DestroyTexture(current->texture); free(current->name); free(current);\<close>\<close>

definition destroy_texture_node :: "engine_state \<Rightarrow> addr \<Rightarrow> addr \<Rightarrow> engine_state" where
  "destroy_texture_node s c texture =
     (let (nh, f) = release (texture_mem s) c
      in touch (s\<lparr>destroyed_textures := destroyed_textures s @ [texture], texture_mem := nh\<rparr>) f)"

partial_function (option) destroy_all_textures_loop :: "engine_state \<Rightarrow> ptr \<Rightarrow> engine_state result" where
  "destroy_all_textures_loop s current =
     (case current of
        None \<Rightarrow> Some (Inr s)
      | Some c \<Rightarrow>
         (case deref (texture_mem s) c of
            Inl e \<Rightarrow> Some (Inl e)
          | Inr (cn, fr) \<Rightarrow>
             destroy_all_textures_loop (destroy_texture_node (touch s fr) c (payload cn)) (node_next cn)))"

definition destroy_all_textures :: "engine_state \<Rightarrow> engine_state result" where
  "destroy_all_textures s =
     (case assert_engine_init s of
        Inl e \<Rightarrow> Some (Inl e)
      | Inr u \<Rightarrow>
         (case destroy_all_textures_loop s (texture_list s) of
            None \<Rightarrow> None
          | Some (Inl e) \<Rightarrow> Some (Inl e)
          | Some (Inr s1) \<Rightarrow> Some (Inr (s1\<lparr>texture_list := None\<rparr>))))"

subsection \<open>The object registry\<close>

text \<open>
  \<^verbatim>\<open>_add_object_to_list\<close>: \<open>name_new\<close> and \<open>item_new\<close> are what the two calls of
  \<^verbatim>\<open>malloc\<close> returned. The scan is the loop \<^verbatim>\<open>while (current->next != NULL)\<close>.
\<close>

partial_function (option) add_object_to_list_scan :: "engine_state \<Rightarrow> addr \<Rightarrow> (addr \<times> engine_state) result" where
  "add_object_to_list_scan s current =
     (case deref (olist_mem s) current of
        Inl e \<Rightarrow> Some (Inl e)
      | Inr (cn, fr) \<Rightarrow>
         (case node_next cn of
            None \<Rightarrow> Some (Inr (current, touch s fr))
          | Some nx \<Rightarrow> add_object_to_list_scan (touch s fr) nx))"

definition add_object_to_list :: "engine_state \<Rightarrow> addr \<Rightarrow> string \<Rightarrow> ptr \<Rightarrow> ptr \<Rightarrow> engine_state result" where
  "add_object_to_list s object nm name_new item_new =
     (case name_new of
        None \<Rightarrow> Some (Inl AllocationFailed)
      | Some obj_name \<Rightarrow>
         (case item_new of
            None \<Rightarrow> Some (Inl AllocationFailed)
          | Some item \<Rightarrow>
             (let s1 = s\<lparr>olist_mem := (olist_mem s)(item \<mapsto>
                            Live \<lparr>payload = object, node_name = nm, node_next = None\<rparr>)\<rparr>
              in case object_list s1 of
                   None \<Rightarrow> Some (Inr (s1\<lparr>object_list := Some item\<rparr>))
                 | Some head \<Rightarrow>
                    (case add_object_to_list_scan s1 head of
                       None \<Rightarrow> None
                     | Some (Inl e) \<Rightarrow> Some (Inl e)
                     | Some (Inr (tl_node, s2)) \<Rightarrow>
                        (case set_next (olist_mem s2) tl_node (Some item) of
                           Inl e \<Rightarrow> Some (Inl e)
                         | Inr (h, fr) \<Rightarrow> Some (Inr (touch (s2\<lparr>olist_mem := h\<rparr>) fr)))))))"

text \<open>
  \<^verbatim>\<open>create_object\<close>: \<^verbatim>\<open>object->id = _object_id++\<close>; the increment of a C int at its
  largest value is undefined.
\<close>

definition create_object :: "engine_state \<Rightarrow> string \<Rightarrow> ptr \<Rightarrow> cint \<Rightarrow> cint \<Rightarrow> cint \<Rightarrow> cint \<Rightarrow> bool \<Rightarrow> ptr \<Rightarrow> ptr \<Rightarrow> ptr \<Rightarrow> ptr \<Rightarrow> (addr \<times> engine_state) result" where
  "create_object s nm texture x y width height hitbox data obj_new name_new item_new =
     (case assert_engine_init s of
        Inl e \<Rightarrow> Some (Inl e)
      | Inr u \<Rightarrow>
         (case obj_new of
            None \<Rightarrow> Some (Inl AllocationFailed)
          | Some object \<Rightarrow>
             (case int_add (object_id s) 1 of
                None \<Rightarrow> Some (Inl SignedOverflow)
              | Some next_id \<Rightarrow>
                 (let s1 = s\<lparr>object_id := next_id,
                              object_mem := (object_mem s)(object \<mapsto>
                                Live \<lparr>o_id = object_id s, o_texture = texture, o_x = x, o_y = y,
                                      o_width = width, o_height = height, o_hitbox = hitbox,
                                      o_data = data\<rparr>)\<rparr>
                  in case add_object_to_list s1 object nm name_new item_new of
                       None \<Rightarrow> None
                     | Some (Inl e) \<Rightarrow> Some (Inl e)
                     | Some (Inr s2) \<Rightarrow> Some (Inr (object, s2))))))"

text \<open>\<^verbatim>\<open>instantiate_object\<close>: the template is read through its pointer.\<close>

definition instantiate_object :: "engine_state \<Rightarrow> addr \<Rightarrow> string \<Rightarrow> cint \<Rightarrow> cint \<Rightarrow> ptr \<Rightarrow> ptr \<Rightarrow> ptr \<Rightarrow> ptr \<Rightarrow> (addr \<times> engine_state) result" where
  "instantiate_object s object_template nm x y data obj_new name_new item_new =
     (case assert_engine_init s of
        Inl e \<Rightarrow> Some (Inl e)
      | Inr u \<Rightarrow>
         (case deref (template_mem s) object_template of
            Inl e \<Rightarrow> Some (Inl e)
          | Inr (t, fr) \<Rightarrow>
             create_object (touch s fr) nm (ot_texture t) x y (ot_width t) (ot_height t)
               (ot_hitbox t) data obj_new name_new item_new))"

text \<open>\<^verbatim>\<open>object_exists\<close>, \<^verbatim>\<open>get_object_by_id\<close>, \<^verbatim>\<open>get_object_by_name\<close>: scans from the head.\<close>

partial_function (option) object_exists_loop :: "string \<Rightarrow> engine_state \<Rightarrow> ptr \<Rightarrow> (bool \<times> engine_state) result" where
  "object_exists_loop nm s current =
     (case current of
        None \<Rightarrow> Some (Inr (False, s))
      | Some c \<Rightarrow>
         (case deref (olist_mem s) c of
            Inl e \<Rightarrow> Some (Inl e)
          | Inr (cn, fr) \<Rightarrow>
             if node_name cn = nm then Some (Inr (True, touch s fr))
             else object_exists_loop nm (touch s fr) (node_next cn)))"

definition object_exists :: "engine_state \<Rightarrow> string \<Rightarrow> (bool \<times> engine_state) result" where
  "object_exists s nm =
     (case assert_engine_init s of
        Inl e \<Rightarrow> Some (Inl e)
      | Inr u \<Rightarrow> object_exists_loop nm s (object_list s))"

partial_function (option) get_object_by_id_loop :: "cint \<Rightarrow> engine_state \<Rightarrow> ptr \<Rightarrow> (addr \<times> engine_state) result" where
  "get_object_by_id_loop i s current =
     (case current of
        None \<Rightarrow> Some (Inl (ObjectNotFoundById i))
      | Some c \<Rightarrow>
         (case deref (olist_mem s) c of
            Inl e \<Rightarrow> Some (Inl e)
          | Inr (cn, f1) \<Rightarrow>
             (case deref (object_mem s) (payload cn) of
                Inl e \<Rightarrow> Some (Inl e)
              | Inr (ob, f2) \<Rightarrow>
                 if o_id ob = i then Some (Inr (payload cn, touch s (f1 \<or> f2)))
                 else get_object_by_id_loop i (touch s (f1 \<or> f2)) (node_next cn))))"

definition get_object_by_id :: "engine_state \<Rightarrow> cint \<Rightarrow> (addr \<times> engine_state) result" where
  "get_object_by_id s i =
     (case assert_engine_init s of
        Inl e \<Rightarrow> Some (Inl e)
      | Inr u \<Rightarrow> get_object_by_id_loop i s (object_list s))"

partial_function (option) get_object_by_name_loop :: "string \<Rightarrow> engine_state \<Rightarrow> ptr \<Rightarrow> (addr \<times> engine_state) result" where
  "get_object_by_name_loop nm s current =
     (case current of
        None \<Rightarrow> Some (Inl (ObjectNotFoundByName nm))
      | Some c \<Rightarrow>
         (case deref (olist_mem s) c of
            Inl e \<Rightarrow> Some (Inl e)
          | Inr (cn, fr) \<Rightarrow>
             if node_name cn = nm then Some (Inr (payload cn, touch s fr))
             else get_object_by_name_loop nm (touch s fr) (node_next cn)))"

definition get_object_by_name :: "engine_state \<Rightarrow> string \<Rightarrow> (addr \<times> engine_state) result" where
  "get_object_by_name s nm =
     (case assert_engine_init s of
        Inl e \<Rightarrow> Some (Inl e)
      | Inr u \<Rightarrow> get_object_by_name_loop nm s (object_list s))"

text \<open>
  The unlink step shared by the destroy functions of the object registry:
  \<^verbatim>\<open>if (prev == NULL) _object_list = current->next; else prev->next = current->next;\<close>
  and the three calls of \<^verbatim>\<open>free\<close> that follow it.
\<close>

definition unlink_object :: "engine_state \<Rightarrow> ptr \<Rightarrow> ptr \<Rightarrow> error + engine_state" where
  "unlink_object s prev nx =
     (case prev of
        None \<Rightarrow> Inr (s\<lparr>object_list := nx\<rparr>)
      | Some p \<Rightarrow>
         (case set_next (olist_mem s) p nx of
            Inl e \<Rightarrow> Inl e
          | Inr (h, fr) \<Rightarrow> Inr (touch (s\<lparr>olist_mem := h\<rparr>) fr)))"

definition free_object_node :: "engine_state \<Rightarrow> addr \<Rightarrow> addr \<Rightarrow> engine_state" where
  "free_object_node s c ob =
     (let (oh, f1) = release (object_mem s) ob;
          (nh, f2) = release (olist_mem s) c
      in touch (s\<lparr>object_mem := oh, olist_mem := nh\<rparr>) (f1 \<or> f2))"

text \<open>\<^verbatim>\<open>destroy_object_by_id\<close>: returns from inside the loop at the first match.\<close>

partial_function (option) destroy_object_by_id_loop :: "cint \<Rightarrow> engine_state \<Rightarrow> ptr \<Rightarrow> ptr \<Rightarrow> engine_state result" where
  "destroy_object_by_id_loop i s current prev =
     (case current of
        None \<Rightarrow> Some (Inr s)
      | Some c \<Rightarrow>
         (case deref (olist_mem s) c of
            Inl e \<Rightarrow> Some (Inl e)
          | Inr (cn, f1) \<Rightarrow>
             (case deref (object_mem s) (payload cn) of
                Inl e \<Rightarrow> Some (Inl e)
              | Inr (ob, f2) \<Rightarrow>
                 if o_id ob = i then
                   (case unlink_object (touch s (f1 \<or> f2)) prev (node_next cn) of
                      Inl e \<Rightarrow> Some (Inl e)
                    | Inr s1 \<Rightarrow> Some (Inr (free_object_node s1 c (payload cn))))
                 else destroy_object_by_id_loop i (touch s (f1 \<or> f2)) (node_next cn) (Some c))))"

definition destroy_object_by_id :: "engine_state \<Rightarrow> cint \<Rightarrow> engine_state result" where
  "destroy_object_by_id s i =
     (case assert_engine_init s of
        Inl e \<Rightarrow> Some (Inl e)
      | Inr u \<Rightarrow> destroy_object_by_id_loop i s (object_list s) None)"

text \<open>
  \<^verbatim>\<open>destroy_object_by_name\<close>: no return after a match. The two statements that close the
  loop body, \<^verbatim>\<open>prev = current; current = current->next;\<close>, run after the node has been
  freed as well: \<open>prev\<close> becomes the freed node and \<open>next\<close> is read from it.
\<close>

partial_function (option) destroy_object_by_name_loop :: "string \<Rightarrow> engine_state \<Rightarrow> ptr \<Rightarrow> ptr \<Rightarrow> engine_state result" where
  "destroy_object_by_name_loop nm s current prev =
     (case current of
        None \<Rightarrow> Some (Inr s)
      | Some c \<Rightarrow>
         (case deref (olist_mem s) c of
            Inl e \<Rightarrow> Some (Inl e)
          | Inr (cn, f1) \<Rightarrow>
             (case (if node_name cn = nm then
                      (case unlink_object (touch s f1) prev (node_next cn) of
                         Inl e \<Rightarrow> Inl e
                       | Inr s1 \<Rightarrow> Inr (free_object_node s1 c (payload cn)))
                    else Inr (touch s f1)) of
                Inl e \<Rightarrow> Some (Inl e)
              | Inr s2 \<Rightarrow>
                 (case deref (olist_mem s2) c of
                    Inl e \<Rightarrow> Some (Inl e)
                  | Inr (cn2, f2) \<Rightarrow>
                     destroy_object_by_name_loop nm (touch s2 f2) (node_next cn2) (Some c)))))"

definition destroy_object_by_name :: "engine_state \<Rightarrow> string \<Rightarrow> engine_state result" where
  "destroy_object_by_name s nm =
     (case assert_engine_init s of
        Inl e \<Rightarrow> Some (Inl e)
      | Inr u \<Rightarrow> destroy_object_by_name_loop nm s (object_list s) None)"

text \<open>\<^verbatim>\<open>destroy_all_objects\<close>: \<open>next\<close> is read before the node is freed.\<close>

partial_function (option) destroy_all_objects_loop :: "engine_state \<Rightarrow> ptr \<Rightarrow> engine_state result" where
  "destroy_all_objects_loop s current =
     (case current of
        None \<Rightarrow> Some (Inr s)
      | Some c \<Rightarrow>
         (case deref (olist_mem s) c of
            Inl e \<Rightarrow> Some (Inl e)
          | Inr (cn, fr) \<Rightarrow>
             destroy_all_objects_loop (free_object_node (touch s fr) c (payload cn)) (node_next cn)))"

definition destroy_all_objects :: "engine_state \<Rightarrow> engine_state result" where
  "destroy_all_objects s =
     (case assert_engine_init s of
        Inl e \<Rightarrow> Some (Inl e)
      | Inr u \<Rightarrow>
         (case destroy_all_objects_loop s (object_list s) of
            None \<Rightarrow> None
          | Some (Inl e) \<Rightarrow> Some (Inl e)
          | Some (Inr s1) \<Rightarrow> Some (Inr (s1\<lparr>object_list := None\<rparr>))))"

subsection \<open>The template registry\<close>

text \<open>The same code as for objects, on \<^verbatim>\<open>_object_template_list\<close>.\<close>

partial_function (option) add_object_template_to_list_scan :: "engine_state \<Rightarrow> addr \<Rightarrow> (addr \<times> engine_state) result" where
  "add_object_template_to_list_scan s current =
     (case deref (tlist_mem s) current of
        Inl e \<Rightarrow> Some (Inl e)
      | Inr (cn, fr) \<Rightarrow>
         (case node_next cn of
            None \<Rightarrow> Some (Inr (current, touch s fr))
          | Some nx \<Rightarrow> add_object_template_to_list_scan (touch s fr) nx))"

definition add_object_template_to_list :: "engine_state \<Rightarrow> addr \<Rightarrow> string \<Rightarrow> ptr \<Rightarrow> ptr \<Rightarrow> engine_state result" where
  "add_object_template_to_list s template nm name_new item_new =
     (case name_new of
        None \<Rightarrow> Some (Inl AllocationFailed)
      | Some objt_name \<Rightarrow>
         (case item_new of
            None \<Rightarrow> Some (Inl AllocationFailed)
          | Some item \<Rightarrow>
             (let s1 = s\<lparr>tlist_mem := (tlist_mem s)(item \<mapsto>
                            Live \<lparr>payload = template, node_name = nm, node_next = None\<rparr>)\<rparr>
              in case object_template_list s1 of
                   None \<Rightarrow> Some (Inr (s1\<lparr>object_template_list := Some item\<rparr>))
                 | Some head \<Rightarrow>
                    (case add_object_template_to_list_scan s1 head of
                       None \<Rightarrow> None
                     | Some (Inl e) \<Rightarrow> Some (Inl e)
                     | Some (Inr (tl_node, s2)) \<Rightarrow>
                        (case set_next (tlist_mem s2) tl_node (Some item) of
                           Inl e \<Rightarrow> Some (Inl e)
                         | Inr (h, fr) \<Rightarrow> Some (Inr (touch (s2\<lparr>tlist_mem := h\<rparr>) fr)))))))"

definition create_object_template :: "engine_state \<Rightarrow> string \<Rightarrow> ptr \<Rightarrow> cint \<Rightarrow> cint \<Rightarrow> bool \<Rightarrow> ptr \<Rightarrow> ptr \<Rightarrow> ptr \<Rightarrow> (addr \<times> engine_state) result" where
  "create_object_template s nm texture width height hitbox tmpl_new name_new item_new =
     (case assert_engine_init s of
        Inl e \<Rightarrow> Some (Inl e)
      | Inr u \<Rightarrow>
         (case tmpl_new of
            None \<Rightarrow> Some (Inl AllocationFailed)
          | Some object_template \<Rightarrow>
             (let s1 = s\<lparr>template_mem := (template_mem s)(object_template \<mapsto>
                            Live \<lparr>ot_texture = texture, ot_width = width, ot_height = height,
                                  ot_hitbox = hitbox\<rparr>)\<rparr>
              in case add_object_template_to_list s1 object_template nm name_new item_new of
                   None \<Rightarrow> None
                 | Some (Inl e) \<Rightarrow> Some (Inl e)
                 | Some (Inr s2) \<Rightarrow> Some (Inr (object_template, s2)))))"

partial_function (option) get_template_by_name_loop :: "string \<Rightarrow> engine_state \<Rightarrow> ptr \<Rightarrow> (addr \<times> engine_state) result" where
  "get_template_by_name_loop nm s current =
     (case current of
        None \<Rightarrow> Some (Inl (TemplateNotFound nm))
      | Some c \<Rightarrow>
         (case deref (tlist_mem s) c of
            Inl e \<Rightarrow> Some (Inl e)
          | Inr (cn, fr) \<Rightarrow>
             if node_name cn = nm then Some (Inr (payload cn, touch s fr))
             else get_template_by_name_loop nm (touch s fr) (node_next cn)))"

definition get_template_by_name :: "engine_state \<Rightarrow> string \<Rightarrow> (addr \<times> engine_state) result" where
  "get_template_by_name s nm =
     (case assert_engine_init s of
        Inl e \<Rightarrow> Some (Inl e)
      | Inr u \<Rightarrow> get_template_by_name_loop nm s (object_template_list s))"

definition unlink_template :: "engine_state \<Rightarrow> ptr \<Rightarrow> ptr \<Rightarrow> error + engine_state" where
  "unlink_template s prev nx =
     (case prev of
        None \<Rightarrow> Inr (s\<lparr>object_template_list := nx\<rparr>)
      | Some p \<Rightarrow>
         (case set_next (tlist_mem s) p nx of
            Inl e \<Rightarrow> Inl e
          | Inr (h, fr) \<Rightarrow> Inr (touch (s\<lparr>tlist_mem := h\<rparr>) fr)))"

definition free_template_node :: "engine_state \<Rightarrow> addr \<Rightarrow> addr \<Rightarrow> engine_state" where
  "free_template_node s c t =
     (let (th, f1) = release (template_mem s) t;
          (nh, f2) = release (tlist_mem s) c
      in touch (s\<lparr>template_mem := th, tlist_mem := nh\<rparr>) (f1 \<or> f2))"

text \<open>\<^verbatim>\<open>destroy_object_template\<close>: returns from inside the loop at the first match.\<close>

partial_function (option) destroy_object_template_loop :: "string \<Rightarrow> engine_state \<Rightarrow> ptr \<Rightarrow> ptr \<Rightarrow> engine_state result" where
  "destroy_object_template_loop nm s current prev =
     (case current of
        None \<Rightarrow> Some (Inr s)
      | Some c \<Rightarrow>
         (case deref (tlist_mem s) c of
            Inl e \<Rightarrow> Some (Inl e)
          | Inr (cn, fr) \<Rightarrow>
             if node_name cn = nm then
               (case unlink_template (touch s fr) prev (node_next cn) of
                  Inl e \<Rightarrow> Some (Inl e)
                | Inr s1 \<Rightarrow> Some (Inr (free_template_node s1 c (payload cn))))
             else destroy_object_template_loop nm (touch s fr) (node_next cn) (Some c)))"

definition destroy_object_template :: "engine_state \<Rightarrow> string \<Rightarrow> engine_state result" where
  "destroy_object_template s nm =
     (case assert_engine_init s of
        Inl e \<Rightarrow> Some (Inl e)
      | Inr u \<Rightarrow> destroy_object_template_loop nm s (object_template_list s) None)"

partial_function (option) destroy_all_templates_loop :: "engine_state \<Rightarrow> ptr \<Rightarrow> engine_state result" where
  "destroy_all_templates_loop s current =
     (case current of
        None \<Rightarrow> Some (Inr s)
      | Some c \<Rightarrow>
         (case deref (tlist_mem s) c of
            Inl e \<Rightarrow> Some (Inl e)
          | Inr (cn, fr) \<Rightarrow>
             destroy_all_templates_loop (free_template_node (touch s fr) c (payload cn)) (node_next cn)))"

definition destroy_all_templates :: "engine_state \<Rightarrow> engine_state result" where
  "destroy_all_templates s =
     (case assert_engine_init s of
        Inl e \<Rightarrow> Some (Inl e)
      | Inr u \<Rightarrow>
         (case destroy_all_templates_loop s (object_template_list s) of
            None \<Rightarrow> None
          | Some (Inl e) \<Rightarrow> Some (Inl e)
          | Some (Inr s1) \<Rightarrow> Some (Inr (s1\<lparr>object_template_list := None\<rparr>))))"

subsection \<open>The font registry\<close>

text \<open>
  \<^verbatim>\<open>load_font\<close>: \<open>font_new\<close> is what \<^verbatim>\<open>TTF_OpenFont\<close> returned. The buffer for the
  name has the size of the file name, and \<^verbatim>\<open>strcpy\<close> writes the name into it: a name
  longer than the file name runs over the buffer.
\<close>

partial_function (option) load_font_scan :: "engine_state \<Rightarrow> addr \<Rightarrow> (addr \<times> engine_state) result" where
  "load_font_scan s current =
     (case deref (font_mem s) current of
        Inl e \<Rightarrow> Some (Inl e)
      | Inr (cn, fr) \<Rightarrow>
         (case node_next cn of
            None \<Rightarrow> Some (Inr (current, touch s fr))
          | Some nx \<Rightarrow> load_font_scan (touch s fr) nx))"

definition load_font :: "engine_state \<Rightarrow> string \<Rightarrow> cint \<Rightarrow> string \<Rightarrow> ptr \<Rightarrow> ptr \<Rightarrow> ptr \<Rightarrow> engine_state result" where
  "load_font s filename size_arg nm font_new name_new struct_new =
     (case assert_engine_init s of
        Inl e \<Rightarrow> Some (Inl e)
      | Inr u \<Rightarrow>
         (case font_new of
            None \<Rightarrow> Some (Inl BackendFailure)
          | Some font \<Rightarrow>
             (case name_new of
                None \<Rightarrow> Some (Inl AllocationFailed)
              | Some name_alloc \<Rightarrow>
                 if length filename < length nm then Some (Inl BufferOverflow)
                 else
                   (case struct_new of
                      None \<Rightarrow> Some (Inl AllocationFailed)
                    | Some font_struct \<Rightarrow>
                       (let s1 = s\<lparr>font_mem := (font_mem s)(font_struct \<mapsto>
                                      Live \<lparr>payload = font, node_name = nm, node_next = None\<rparr>)\<rparr>
                        in case font_list s1 of
                             None \<Rightarrow> Some (Inr (s1\<lparr>font_list := Some font_struct\<rparr>))
                           | Some head \<Rightarrow>
                              (case load_font_scan s1 head of
                                 None \<Rightarrow> None
                               | Some (Inl e) \<Rightarrow> Some (Inl e)
                               | Some (Inr (tl_node, s2)) \<Rightarrow>
                                  (case set_next (font_mem s2) tl_node (Some font_struct) of
                                     Inl e \<Rightarrow> Some (Inl e)
                                   | Inr (h, fr) \<Rightarrow>
                                      Some (Inr (touch (s2\<lparr>font_mem := h\<rparr>) fr)))))))))"



definition unlink_font :: "engine_state \<Rightarrow> ptr \<Rightarrow> ptr \<Rightarrow> error + engine_state" where
  "unlink_font s prev nx =
     (case prev of
        None \<Rightarrow> Inr (s\<lparr>font_list := nx\<rparr>)
      | Some p \<Rightarrow>
         (case set_next (font_mem s) p nx of
            Inl e \<Rightarrow> Inl e
          | Inr (h, fr) \<Rightarrow> Inr (touch (s\<lparr>font_mem := h\<rparr>) fr)))"

text \<open>\<^verbatim>\<open>TTF_CloseFont(current->font); free(current->name); free(current);\<close>\<close>

definition close_font_node :: "engine_state \<Rightarrow> addr \<Rightarrow> addr \<Rightarrow> engine_state" where
  "close_font_node s c font =
     (let (nh, f) = release (font_mem s) c
      in touch (s\<lparr>closed_fonts := closed_fonts s @ [font], font_mem := nh\<rparr>) f)"

text \<open>\<^verbatim>\<open>close_font\<close>: returns from inside the loop at the first match.\<close>

partial_function (option) close_font_loop :: "string \<Rightarrow> engine_state \<Rightarrow> ptr \<Rightarrow> ptr \<Rightarrow> engine_state result" where
  "close_font_loop nm s current prev =
     (case current of
        None \<Rightarrow> Some (Inr s)
      | Some c \<Rightarrow>
         (case deref (font_mem s) c of
            Inl e \<Rightarrow> Some (Inl e)
          | Inr (cn, fr) \<Rightarrow>
             if node_name cn = nm then
               (case unlink_font (touch s fr) prev (node_next cn) of
                  Inl e \<Rightarrow> Some (Inl e)
                | Inr s1 \<Rightarrow> Some (Inr (close_font_node s1 c (payload cn))))
             else close_font_loop nm (touch s fr) (node_next cn) (Some c)))"

definition close_font :: "engine_state \<Rightarrow> string \<Rightarrow> engine_state result" where
  "close_font s nm =
     (case assert_engine_init s of
        Inl e \<Rightarrow> Some (Inl e)
      | Inr u \<Rightarrow> close_font_loop nm s (font_list s) None)"

partial_function (option) close_all_fonts_loop :: "engine_state \<Rightarrow> ptr \<Rightarrow> engine_state result" where
  "close_all_fonts_loop s current =
     (case current of
        None \<Rightarrow> Some (Inr s)
      | Some c \<Rightarrow>
         (case deref (font_mem s) c of
            Inl e \<Rightarrow> Some (Inl e)
          | Inr (cn, fr) \<Rightarrow>
             close_all_fonts_loop (close_font_node (touch s fr) c (payload cn)) (node_next cn)))"

definition close_all_fonts :: "engine_state \<Rightarrow> engine_state result" where
  "close_all_fonts s =
     (case assert_engine_init s of
        Inl e \<Rightarrow> Some (Inl e)
      | Inr u \<Rightarrow>
         (case font_list s of
            None \<Rightarrow> Some (Inr s)
          | Some head \<Rightarrow>
             (case close_all_fonts_loop s (Some head) of
                None \<Rightarrow> None
              | Some (Inl e) \<Rightarrow> Some (Inl e)
              | Some (Inr s1) \<Rightarrow> Some (Inr (s1\<lparr>font_list := None\<rparr>)))))"

subsection \<open>Shapes\<close>

text \<open>
  The primitives of SDL2_gfx (\<^verbatim>\<open>lineRGBA\<close>, \<^verbatim>\<open>rectangleRGBA\<close>, ...) set the draw colour
  of the renderer to the colour they are given and draw with it; \<open>canvas\<close> records what
  was drawn. \<^verbatim>\<open>SDL_SetRenderDrawColor\<close> sets the draw colour.
\<close>

definition gfx :: "string \<Rightarrow> cint list \<Rightarrow> Color \<Rightarrow> engine_state \<Rightarrow> engine_state" where
  "gfx prim args c s = s\<lparr>draw_color := c, canvas := canvas s @ [(prim, args, c)]\<rparr>"

definition SDL_SetRenderDrawColor :: "Color \<Rightarrow> engine_state \<Rightarrow> engine_state" where
  "SDL_SetRenderDrawColor c s = s\<lparr>draw_color := c\<rparr>"

definition draw_line :: "engine_state \<Rightarrow> cint \<Rightarrow> cint \<Rightarrow> cint \<Rightarrow> cint \<Rightarrow> Color \<Rightarrow> error + engine_state" where
  "draw_line s x1 y1 x2 y2 c =
     (case assert_engine_init s of
        Inl e \<Rightarrow> Inl e
      | Inr u \<Rightarrow>
         (let s1 = gfx ''lineRGBA'' [x1, y1, x2, y2] c s
          in Inr (SDL_SetRenderDrawColor (color s1) s1)))"

definition draw_rect :: "engine_state \<Rightarrow> cint \<Rightarrow> cint \<Rightarrow> cint \<Rightarrow> cint \<Rightarrow> Color \<Rightarrow> error + engine_state" where
  "draw_rect s x1 y1 x2 y2 c =
     (case assert_engine_init s of
        Inl e \<Rightarrow> Inl e
      | Inr u \<Rightarrow>
         (let s1 = gfx ''rectangleRGBA'' [x1, y1, x2, y2] c s
          in Inr (SDL_SetRenderDrawColor (color s1) s1)))"

definition draw_ellipse :: "engine_state \<Rightarrow> cint \<Rightarrow> cint \<Rightarrow> cint \<Rightarrow> cint \<Rightarrow> Color \<Rightarrow> error + engine_state" where
  "draw_ellipse s x y rx ry c =
     (case assert_engine_init s of
        Inl e \<Rightarrow> Inl e
      | Inr u \<Rightarrow>
         (let s1 = gfx ''ellipseRGBA'' [x, y, rx, ry] c s
          in Inr (SDL_SetRenderDrawColor (color s1) s1)))"

definition draw_circle :: "engine_state \<Rightarrow> cint \<Rightarrow> cint \<Rightarrow> cint \<Rightarrow> Color \<Rightarrow> error + engine_state" where
  "draw_circle s x y radius c =
     (case assert_engine_init s of
        Inl e \<Rightarrow> Inl e
      | Inr u \<Rightarrow>
         (let s1 = gfx ''circleRGBA'' [x, y, radius] c s
          in Inr (SDL_SetRenderDrawColor (color s1) s1)))"

definition draw_line_thick :: "engine_state \<Rightarrow> cint \<Rightarrow> cint \<Rightarrow> cint \<Rightarrow> cint \<Rightarrow> Color \<Rightarrow> cint \<Rightarrow> error + engine_state" where
  "draw_line_thick s x1 y1 x2 y2 c thickness =
     (case assert_engine_init s of
        Inl e \<Rightarrow> Inl e
      | Inr u \<Rightarrow>
         (let s1 = gfx ''thickLineRGBA'' [x1, y1, x2, y2, thickness] c s
          in Inr (SDL_SetRenderDrawColor (color s1) s1)))"

definition draw_rect_thick :: "engine_state \<Rightarrow> cint \<Rightarrow> cint \<Rightarrow> cint \<Rightarrow> cint \<Rightarrow> Color \<Rightarrow> cint \<Rightarrow> error + engine_state" where
  "draw_rect_thick s x1 y1 x2 y2 c thickness =
     (case assert_engine_init s of
        Inl e \<Rightarrow> Inl e
      | Inr u \<Rightarrow>
         (let s1 = gfx ''thickLineRGBA'' [x1, y1, x2, y1, thickness] c s;
              s2 = gfx ''thickLineRGBA'' [x2, y1, x2, y2, thickness] c s1;
              s3 = gfx ''thickLineRGBA'' [x2, y2, x1, y2, thickness] c s2;
              s4 = gfx ''thickLineRGBA'' [x1, y2, x1, y1, thickness] c s3
          in Inr (SDL_SetRenderDrawColor (color s4) s4)))"

definition draw_circle_thick :: "engine_state \<Rightarrow> cint \<Rightarrow> cint \<Rightarrow> cint \<Rightarrow> Color \<Rightarrow> cint \<Rightarrow> error + engine_state" where
  "draw_circle_thick s x y radius c thickness =
     (case assert_engine_init s of
        Inl e \<Rightarrow> Inl e
      | Inr u \<Rightarrow>
         (let s1 = gfx ''thickCircleRGBA'' [x, y, radius, thickness] c s
          in Inr (SDL_SetRenderDrawColor (color s1) s1)))"

definition draw_ellipse_thick :: "engine_state \<Rightarrow> cint \<Rightarrow> cint \<Rightarrow> cint \<Rightarrow> cint \<Rightarrow> Color \<Rightarrow> cint \<Rightarrow> error + engine_state" where
  "draw_ellipse_thick s x y rx ry c thickness =
     (case assert_engine_init s of
        Inl e \<Rightarrow> Inl e
      | Inr u \<Rightarrow>
         (let s1 = gfx ''thickEllipseRGBA'' [x, y, rx, ry, thickness] c s
          in Inr (SDL_SetRenderDrawColor (color s1) s1)))"

text \<open>A shape-drawing call with its arguments.\<close>

datatype shape_call =
    Draw_line cint cint cint cint Color
  | Draw_rect cint cint cint cint Color
  | Draw_ellipse cint cint cint cint Color
  | Draw_circle cint cint cint Color
  | Draw_line_thick cint cint cint cint Color cint
  | Draw_rect_thick cint cint cint cint Color cint
  | Draw_circle_thick cint cint cint Color cint
  | Draw_ellipse_thick cint cint cint cint Color cint

fun draw_shape :: "engine_state \<Rightarrow> shape_call \<Rightarrow> error + engine_state" where
  "draw_shape s (Draw_line x1 y1 x2 y2 c) = draw_line s x1 y1 x2 y2 c"
| "draw_shape s (Draw_rect x1 y1 x2 y2 c) = draw_rect s x1 y1 x2 y2 c"
| "draw_shape s (Draw_ellipse x y rx ry c) = draw_ellipse s x y rx ry c"
| "draw_shape s (Draw_circle x y radius c) = draw_circle s x y radius c"
| "draw_shape s (Draw_line_thick x1 y1 x2 y2 c th) = draw_line_thick s x1 y1 x2 y2 c th"
| "draw_shape s (Draw_rect_thick x1 y1 x2 y2 c th) = draw_rect_thick s x1 y1 x2 y2 c th"
| "draw_shape s (Draw_circle_thick x y radius c th) = draw_circle_thick s x y radius c th"
| "draw_shape s (Draw_ellipse_thick x y rx ry c th) = draw_ellipse_thick s x y rx ry c th"

subsection \<open>The frame loop\<close>

text \<open>
  An event carries its \<^verbatim>\<open>type\<close> and the rest of the union. The callbacks are functions
  on the game data they are handed. \<^verbatim>\<open>_engine\<close> is static to engine.c and no function
  of the file sets \<^verbatim>\<open>isRunning\<close> except \<^verbatim>\<open>engine_init\<close>, which refuses to run twice,
  so a callback has no way to write the flag.
\<close>

record SDL_Event =
  ev_type :: "32 word"
  ev_data :: nat

definition SDL_QUIT :: "32 word" where
  "SDL_QUIT = 0x100"

datatype call = Handler SDL_Event | Update | Clear | Draw | Present | Delay cint

record 'g world =
  est :: engine_state
  game :: 'g
  calls :: "call list"

text \<open>\<^verbatim>\<open>_engine->isRunning = 0\<close>\<close>

definition stop :: "engine_state \<Rightarrow> engine_state" where
  "stop s = s\<lparr>engine := map_option (\<lambda>e. e\<lparr>isRunning := False\<rparr>) (engine s)\<rparr>"

definition running :: "engine_state \<Rightarrow> bool" where
  "running s = (case engine s of None \<Rightarrow> False | Some e \<Rightarrow> isRunning e)"

text \<open>
  The inner loop \<^verbatim>\<open>while (SDL_PollEvent(&_event))\<close>; the list is the queue it finds, in
  queue order.
\<close>

fun poll_events :: "(SDL_Event \<Rightarrow> 'g \<Rightarrow> 'g) option \<Rightarrow> SDL_Event list \<Rightarrow> 'g world \<Rightarrow> 'g world" where
  "poll_events event_handler [] w = w"
| "poll_events event_handler (ev # evs) w =
     poll_events event_handler evs
       (if ev_type ev = SDL_QUIT then w\<lparr>est := stop (est w)\<rparr>
        else (case event_handler of
                None \<Rightarrow> w
              | Some h \<Rightarrow> w\<lparr>game := h ev (game w), calls := calls w @ [Handler ev]\<rparr>))"

text \<open>C division truncates towards zero; a zero divisor has no defined result.\<close>

definition int_div :: "cint \<Rightarrow> cint \<Rightarrow> cint option" where
  "int_div a b =
     (if sint b = 0 \<or> (sint a = - (2 ^ 31) \<and> sint b = - 1) then None
      else Some (word_of_int (sgn (sint a) * sgn (sint b) * (\<bar>sint a\<bar> div \<bar>sint b\<bar>))))"

definition int_sub :: "cint \<Rightarrow> cint \<Rightarrow> cint option" where
  "int_sub a b =
     (if - (2 ^ 31) \<le> sint a - sint b \<and> sint a - sint b < 2 ^ 31 then Some (a - b) else None)"

text \<open>
  One iteration of the outer loop. The environment supplies the queue and the two readings
  of \<^verbatim>\<open>SDL_GetTicks\<close>. \<^verbatim>\<open>SDL_RenderClear\<close> empties the canvas.
\<close>

definition frame :: "('g \<Rightarrow> 'g) \<Rightarrow> ('g \<Rightarrow> 'g) option \<Rightarrow> (SDL_Event \<Rightarrow> 'g \<Rightarrow> 'g) option \<Rightarrow>
    SDL_Event list \<times> 32 word \<times> 32 word \<Rightarrow> 'g world \<Rightarrow> error + 'g world" where
  "frame update draw event_handler input w =
     (case input of (events, frameStart, ticks) \<Rightarrow>
        (let w1 = poll_events event_handler events w;
             w2 = w1\<lparr>game := update (game w1), calls := calls w1 @ [Update]\<rparr>;
             w3 = w2\<lparr>est := (est w2)\<lparr>canvas := []\<rparr>, calls := calls w2 @ [Clear]\<rparr>;
             w4 = (case draw of
                     None \<Rightarrow> w3
                   | Some d \<Rightarrow> w3\<lparr>game := d (game w3), calls := calls w3 @ [Draw]\<rparr>);
             w5 = w4\<lparr>calls := calls w4 @ [Present]\<rparr>;
             frameTime = ticks - frameStart
         in case engine (est w5) of
              None \<Rightarrow> Inl EngineNotInitialized
            | Some e \<Rightarrow>
               (case int_div 1000 (fps e) of
                  None \<Rightarrow> Inl DivisionByZero
                | Some budget \<Rightarrow>
                   if int_lt frameTime budget then
                     (case int_sub budget frameTime of
                        None \<Rightarrow> Inl SignedOverflow
                      | Some d \<Rightarrow> Inr (w5\<lparr>calls := calls w5 @ [Delay d]\<rparr>))
                   else Inr w5)))"

text \<open>
  \<^verbatim>\<open>while (_engine->isRunning)\<close>. The list holds what the environment supplies to the
  successive iterations; \<open>None\<close> says that the loop is still running when the list ends.
\<close>

fun engine_run_loop :: "('g \<Rightarrow> 'g) \<Rightarrow> ('g \<Rightarrow> 'g) option \<Rightarrow> (SDL_Event \<Rightarrow> 'g \<Rightarrow> 'g) option \<Rightarrow>
    (SDL_Event list \<times> 32 word \<times> 32 word) list \<Rightarrow> 'g world \<Rightarrow> 'g world result" where
  "engine_run_loop update draw event_handler [] w =
     (if running (est w) then None else Some (Inr w))"
| "engine_run_loop update draw event_handler (input # inputs) w =
     (if running (est w) then
        (case frame update draw event_handler input w of
           Inl e \<Rightarrow> Some (Inl e)
         | Inr w1 \<Rightarrow> engine_run_loop update draw event_handler inputs w1)
      else Some (Inr w))"

definition engine_run :: "('g \<Rightarrow> 'g) \<Rightarrow> ('g \<Rightarrow> 'g) option \<Rightarrow> (SDL_Event \<Rightarrow> 'g \<Rightarrow> 'g) option \<Rightarrow>
    (SDL_Event list \<times> 32 word \<times> 32 word) list \<Rightarrow> 'g world \<Rightarrow> 'g world result" where
  "engine_run update draw event_handler inputs w =
     (case assert_engine_init (est w) of
        Inl e \<Rightarrow> Some (Inl e)
      | Inr u \<Rightarrow> engine_run_loop update draw event_handler inputs w)"

text \<open>The number of iterations a run has made: one \<open>Update\<close> each.\<close>

definition iterations :: "call list \<Rightarrow> nat" where
  "iterations cs = length (filter (\<lambda>c. c = Update) cs)"

definition has_quit :: "SDL_Event list \<times> 32 word \<times> 32 word \<Rightarrow> bool" where
  "has_quit input = list_ex (\<lambda>ev. ev_type ev = SDL_QUIT) (fst input)"

subsection \<open>What a registry holds\<close>

text \<open>
  \<open>registry h p es\<close>: from the head \<open>p\<close> the \<open>next\<close> pointers lead through live nodes to
  NULL, and \<open>es\<close> lists them in that order, each as address, name and payload.
\<close>

type_synonym entry = "addr \<times> string \<times> addr"

fun registry :: "node heap \<Rightarrow> ptr \<Rightarrow> entry list \<Rightarrow> bool" where
  "registry h p [] \<longleftrightarrow> p = None"
| "registry h p ((c, nm, pl) # es) \<longleftrightarrow>
     p = Some c \<and>
     (case h c of
        Some (Live n) \<Rightarrow> node_name n = nm \<and> payload n = pl \<and> registry h (node_next n) es
      | Some (Freed n) \<Rightarrow> False
      | None \<Rightarrow> False)"

definition entry_name :: "entry \<Rightarrow> string" where
  "entry_name e = fst (snd e)"

definition entry_payload :: "entry \<Rightarrow> addr" where
  "entry_payload e = snd (snd e)"

text \<open>The entries without the first one of the given name.\<close>

fun remove_first :: "string \<Rightarrow> entry list \<Rightarrow> entry list" where
  "remove_first nm [] = []"
| "remove_first nm (e # es) = (if entry_name e = nm then es else e # remove_first nm es)"

text \<open>The object behind a payload pointer is live and its id is not \<open>i\<close>.\<close>

definition other_id :: "Object heap \<Rightarrow> cint \<Rightarrow> entry \<Rightarrow> bool" where
  "other_id oh i e =
     (case oh (entry_payload e) of
        Some (Live ob) \<Rightarrow> o_id ob \<noteq> i
      | Some (Freed ob) \<Rightarrow> False
      | None \<Rightarrow> False)"


subsection \<open>Sequences of calls\<close>

text \<open>
  The calls that change the state, with their arguments and with what the environment
  answered, and the state a sequence of them leaves, together with the ids that
  \<^verbatim>\<open>create_object\<close> and \<^verbatim>\<open>instantiate_object\<close> handed out, in order.
\<close>

datatype op =
    Engine_init string cint cint cint "(addr \<times> addr) option"
  | Create_object string ptr cint cint cint cint bool ptr ptr ptr ptr
  | Instantiate_object addr string cint cint ptr ptr ptr ptr
  | Destroy_object_by_id cint
  | Destroy_object_by_name string
  | Destroy_all_objects
  | Create_object_template string ptr cint cint bool ptr ptr ptr
  | Destroy_object_template string
  | Destroy_all_templates
  | Load_font string cint string ptr ptr ptr
  | Close_font string
  | Close_all_fonts
  | Create_tilemap cint cint cint cint cint ptr ptr
  | Get_tile addr cint cint ptr
  | Draw_shape shape_call
  | Load_texture string string ptr ptr ptr
  | Destroy_all_textures

text \<open>The id of a freshly created object, read through the pointer that was returned.\<close>

definition new_id :: "addr \<times> engine_state \<Rightarrow> cint list" where
  "new_id r = (case object_mem (snd r) (fst r) of
                 None \<Rightarrow> []
               | Some blk \<Rightarrow> [o_id (contents blk)])"

definition returning :: "('a \<Rightarrow> cint list \<times> engine_state) \<Rightarrow> 'a result \<Rightarrow> (cint list \<times> engine_state) result" where
  "returning f r = (case r of None \<Rightarrow> None | Some (Inl e) \<Rightarrow> Some (Inl e) | Some (Inr v) \<Rightarrow> Some (Inr (f v)))"

fun exec :: "op \<Rightarrow> engine_state \<Rightarrow> (cint list \<times> engine_state) result" where
  "exec (Engine_init title w h f backend) s =
     returning (\<lambda>s1. ([], s1)) (Some (engine_init s title w h f backend))"
| "exec (Create_object nm tex x y w h hb data obj_new name_new item_new) s =
     returning (\<lambda>r. (new_id r, snd r)) (create_object s nm tex x y w h hb data obj_new name_new item_new)"
| "exec (Instantiate_object t nm x y data obj_new name_new item_new) s =
     returning (\<lambda>r. (new_id r, snd r)) (instantiate_object s t nm x y data obj_new name_new item_new)"
| "exec (Destroy_object_by_id i) s = returning (\<lambda>s1. ([], s1)) (destroy_object_by_id s i)"
| "exec (Destroy_object_by_name nm) s = returning (\<lambda>s1. ([], s1)) (destroy_object_by_name s nm)"
| "exec Destroy_all_objects s = returning (\<lambda>s1. ([], s1)) (destroy_all_objects s)"
| "exec (Create_object_template nm tex w h hb tmpl_new name_new item_new) s =
     returning (\<lambda>r. ([], snd r)) (create_object_template s nm tex w h hb tmpl_new name_new item_new)"
| "exec (Destroy_object_template nm) s = returning (\<lambda>s1. ([], s1)) (destroy_object_template s nm)"
| "exec Destroy_all_templates s = returning (\<lambda>s1. ([], s1)) (destroy_all_templates s)"
| "exec (Load_font filename sz nm font_new name_new struct_new) s =
     returning (\<lambda>s1. ([], s1)) (load_font s filename sz nm font_new name_new struct_new)"
| "exec (Close_font nm) s = returning (\<lambda>s1. ([], s1)) (close_font s nm)"
| "exec Close_all_fonts s = returning (\<lambda>s1. ([], s1)) (close_all_fonts s)"
| "exec (Create_tilemap tw th sp rows cols new tex) s =
     returning (\<lambda>r. ([], snd r)) (Some (create_tilemap s tw th sp rows cols new tex))"
| "exec (Get_tile tm row col new) s =
     returning (\<lambda>r. ([], snd r)) (Some (get_tile s tm row col new))"
| "exec (Draw_shape c) s = returning (\<lambda>s1. ([], s1)) (Some (draw_shape s c))"
| "exec (Load_texture filename nm tex_new name_new item_new) s =
     returning (\<lambda>r. ([], snd r)) (load_texture s filename nm tex_new name_new item_new)"
| "exec Destroy_all_textures s = returning (\<lambda>s1. ([], s1)) (destroy_all_textures s)"

fun run :: "op list \<Rightarrow> engine_state \<Rightarrow> (cint list \<times> engine_state) result" where
  "run [] s = Some (Inr ([], s))"
| "run (c # cs) s =
     (case exec c s of
        None \<Rightarrow> None
      | Some (Inl e) \<Rightarrow> Some (Inl e)
      | Some (Inr (ids, s1)) \<Rightarrow>
         (case run cs s1 of
            None \<Rightarrow> None
          | Some (Inl e) \<Rightarrow> Some (Inl e)
          | Some (Inr (ids2, s2)) \<Rightarrow> Some (Inr (ids @ ids2, s2))))"

subsection \<open>A concrete state\<close>

text \<open>
  After \<^verbatim>\<open>engine_init\<close>: objects named a, a, b (ids 0, 1, 2), templates named a, a and
  fonts named title, body. The addresses are those the calls below were given.
\<close>

definition demo_calls :: "op list" where
  "demo_calls =
     [Engine_init ''TinyWar'' 800 600 60 (Some (1, 2)),
      Create_object ''a'' None 0 0 10 10 True None (Some 10) (Some 11) (Some 12),
      Create_object ''a'' None 0 0 10 10 True None (Some 20) (Some 21) (Some 22),
      Create_object ''b'' None 0 0 10 10 True None (Some 30) (Some 31) (Some 32),
      Create_object_template ''a'' None 10 10 True (Some 110) (Some 111) (Some 112),
      Create_object_template ''a'' None 20 20 False (Some 120) (Some 121) (Some 122),
      Load_font ''a.ttf'' 12 ''title'' (Some 40) (Some 41) (Some 42),
      Load_font ''b.ttf'' 10 ''body'' (Some 50) (Some 51) (Some 52)]"

definition demo :: engine_state where
  "demo =
     \<lparr>engine = Some \<lparr>window = 1, renderer = 2, isRunning = True,
                      e_width = 800, e_height = 600, fps = 60\<rparr>,
      object_id = 3, object_list = Some 12, object_template_list = Some 112,
      font_list = Some 42, color = opaque_black,
      olist_mem = [12 \<mapsto> Live \<lparr>payload = 10, node_name = ''a'', node_next = Some 22\<rparr>,
                   22 \<mapsto> Live \<lparr>payload = 20, node_name = ''a'', node_next = Some 32\<rparr>,
                   32 \<mapsto> Live \<lparr>payload = 30, node_name = ''b'', node_next = None\<rparr>],
      object_mem = [10 \<mapsto> Live ((box 0 0 10 10)\<lparr>o_id := 0\<rparr>),
                    20 \<mapsto> Live ((box 0 0 10 10)\<lparr>o_id := 1\<rparr>),
                    30 \<mapsto> Live ((box 0 0 10 10)\<lparr>o_id := 2\<rparr>)],
      tlist_mem = [112 \<mapsto> Live \<lparr>payload = 110, node_name = ''a'', node_next = Some 122\<rparr>,
                   122 \<mapsto> Live \<lparr>payload = 120, node_name = ''a'', node_next = None\<rparr>],
      template_mem = [110 \<mapsto> Live \<lparr>ot_texture = None, ot_width = 10, ot_height = 10, ot_hitbox = True\<rparr>,
                      120 \<mapsto> Live \<lparr>ot_texture = None, ot_width = 20, ot_height = 20, ot_hitbox = False\<rparr>],
      font_mem = [42 \<mapsto> Live \<lparr>payload = 40, node_name = ''title'', node_next = Some 52\<rparr>,
                  52 \<mapsto> Live \<lparr>payload = 50, node_name = ''body'', node_next = None\<rparr>],
      tile_mem = Map.empty, tilemap_mem = Map.empty, closed_fonts = [],
      draw_color = opaque_black, canvas = [], stale = False,
      texture_list = None, texture_mem = Map.empty, destroyed_textures = []\<rparr>"


definition aba :: engine_state where
  "aba =
     \<lparr>engine = Some \<lparr>window = 1, renderer = 2, isRunning = True,
                      e_width = 800, e_height = 600, fps = 60\<rparr>,
      object_id = 3, object_list = Some 12, object_template_list = None,
      font_list = None, color = opaque_black,
      olist_mem = [12 \<mapsto> Live \<lparr>payload = 10, node_name = ''a'', node_next = Some 22\<rparr>,
                   22 \<mapsto> Live \<lparr>payload = 20, node_name = ''b'', node_next = Some 32\<rparr>,
                   32 \<mapsto> Live \<lparr>payload = 30, node_name = ''a'', node_next = None\<rparr>],
      object_mem = [10 \<mapsto> Live ((box 0 0 10 10)\<lparr>o_id := 0\<rparr>),
                    20 \<mapsto> Live ((box 0 0 10 10)\<lparr>o_id := 1\<rparr>),
                    30 \<mapsto> Live ((box 0 0 10 10)\<lparr>o_id := 2\<rparr>)],
      tlist_mem = Map.empty, template_mem = Map.empty, font_mem = Map.empty,
      tile_mem = Map.empty, tilemap_mem = Map.empty, closed_fonts = [],
      draw_color = opaque_black, canvas = [], stale = False,
      texture_list = None, texture_mem = Map.empty, destroyed_textures = []\<rparr>"

text \<open>
  The state \<open>demo\<close> after \<^verbatim>\<open>destroy_object_template("a")\<close>: the first template node and
  its template are freed, the second node is the head.
\<close>

definition demo_less_template :: engine_state where
  "demo_less_template =
     demo\<lparr>object_template_list := Some 122,
          tlist_mem := [112 \<mapsto> Freed \<lparr>payload = 110, node_name = ''a'', node_next = Some 122\<rparr>,
                        122 \<mapsto> Live \<lparr>payload = 120, node_name = ''a'', node_next = None\<rparr>],
          template_mem := [110 \<mapsto> Freed \<lparr>ot_texture = None, ot_width = 10, ot_height = 10, ot_hitbox = True\<rparr>,
                           120 \<mapsto> Live \<lparr>ot_texture = None, ot_width = 20, ot_height = 20, ot_hitbox = False\<rparr>]\<rparr>"

text \<open>
  The state \<open>demo\<close> after \<^verbatim>\<open>destroy_object_by_name("a")\<close>: both nodes named a and their
  objects are freed, the head pointer still holds the address of the second of them, and
  the \<open>next\<close> field of the first was overwritten after it had been freed.
\<close>

definition demo_less_objects :: engine_state where
  "demo_less_objects =
     demo\<lparr>object_list := Some 22,
          olist_mem := [12 \<mapsto> Freed \<lparr>payload = 10, node_name = ''a'', node_next = Some 32\<rparr>,
                        22 \<mapsto> Freed \<lparr>payload = 20, node_name = ''a'', node_next = Some 32\<rparr>,
                        32 \<mapsto> Live \<lparr>payload = 30, node_name = ''b'', node_next = None\<rparr>],
          object_mem := [10 \<mapsto> Freed ((box 0 0 10 10)\<lparr>o_id := 0\<rparr>),
                         20 \<mapsto> Freed ((box 0 0 10 10)\<lparr>o_id := 1\<rparr>),
                         30 \<mapsto> Live ((box 0 0 10 10)\<lparr>o_id := 2\<rparr>)],
          stale := True\<rparr>"

text \<open>Creations interleaved with each way of destroying objects.\<close>

definition interleaved_calls :: "op list" where
  "interleaved_calls =
     [Engine_init ''TinyWar'' 800 600 60 (Some (1, 2)),
      Create_object ''a'' None 0 0 10 10 True None (Some 10) (Some 11) (Some 12),
      Create_object ''b'' None 0 0 10 10 True None (Some 20) (Some 21) (Some 22),
      Destroy_object_by_id 0,
      Create_object ''c'' None 5 5 10 10 True None (Some 30) (Some 31) (Some 32),
      Destroy_object_by_name ''c'',
      Create_object_template ''t'' None 10 10 True (Some 110) (Some 111) (Some 112),
      Instantiate_object 110 ''d'' 1 1 None (Some 40) (Some 41) (Some 42),
      Destroy_all_objects,
      Create_object ''e'' None 0 0 10 10 True None (Some 50) (Some 51) (Some 52)]"

text \<open>
  A world for the frame loop: the state \<open>demo\<close>, a game that is the list of the key codes
  its handler has seen, and three frames of input, the second of which holds a quit event
  between two key events.
\<close>

definition SDL_KEYDOWN :: "32 word" where
  "SDL_KEYDOWN = 0x300"

definition key_event :: "nat \<Rightarrow> SDL_Event" where
  "key_event k = \<lparr>ev_type = SDL_KEYDOWN, ev_data = k\<rparr>"

definition quit_event :: SDL_Event where
  "quit_event = \<lparr>ev_type = SDL_QUIT, ev_data = 0\<rparr>"

definition log_event :: "SDL_Event \<Rightarrow> nat list \<Rightarrow> nat list" where
  "log_event ev g = g @ [ev_data ev]"

definition demo_world :: "nat list world" where
  "demo_world = \<lparr>est = demo, game = [], calls = []\<rparr>"

definition demo_frames :: "(SDL_Event list \<times> 32 word \<times> 32 word) list" where
  "demo_frames =
     [([key_event 1, key_event 2], 0, 5),
      ([key_event 3, quit_event, key_event 4], 20, 50),
      ([key_event 5], 60, 61)]"



subsection \<open>Facts about C integers\<close>

lemma int_add_Some:
  "int_add x y = Some z \<Longrightarrow> sint z = sint x + sint y"
  by (auto simp: int_add_def sint_word_ariths signed_take_bit_int_eq_self split: if_splits)

lemma int_add_in_range:
  "- (2 ^ 31) \<le> sint x + sint y \<Longrightarrow> sint x + sint y < 2 ^ 31 \<Longrightarrow> int_add x y = Some (x + y)"
  by (simp add: int_add_def)

lemma int_add_None:
  "int_add x y = None \<longleftrightarrow> \<not> (- (2 ^ 31) \<le> sint x + sint y \<and> sint x + sint y < 2 ^ 31)"
  by (simp add: int_add_def)

subsection \<open>Facts about the heap and the registries\<close>

lemma touch_False [simp]: "touch s False = s"
  by (simp add: touch_def)

lemma registry_Cons_D:
  assumes "registry h cur ((c, nm, pl) # es)"
  obtains n where "cur = Some c" and "h c = Some (Live n)" and "node_name n = nm"
    and "payload n = pl" and "registry h (node_next n) es"
  using assms by (auto split: option.splits block.splits)

lemma other_id_D:
  assumes "other_id oh i (c, nm, pl)"
  obtains ob where "oh pl = Some (Live ob)" and "o_id ob \<noteq> i"
  using assms by (auto simp: other_id_def entry_payload_def split: option.splits block.splits)

text \<open>The calls of \<open>demo_calls\<close>, run from process start, return and leave the state \<open>demo\<close>.\<close>

lemma demo_reachable: "run demo_calls initial_state = Some (Inr ([0, 1, 2], demo))"
  by (simp add: demo_calls_def demo_def create_object_def add_object_to_list_def
        assert_engine_init_def engine_init_def initial_state_def int_add_def deref_def
        set_next_def touch_def Let_def add_object_to_list_scan.simps returning_def new_id_def
        create_object_template_def add_object_template_to_list_def
        add_object_template_to_list_scan.simps load_font_def load_font_scan.simps box_def
        fun_eq_iff)

lemma demo_engine: "engine demo \<noteq> None"
  by (simp add: demo_def)

lemma demo_objects:
  "registry (olist_mem demo) (object_list demo) [(12, ''a'', 10), (22, ''a'', 20), (32, ''b'', 30)]"
  by (simp add: demo_def)

lemma demo_templates:
  "registry (tlist_mem demo) (object_template_list demo) [(112, ''a'', 110), (122, ''a'', 120)]"
  by (simp add: demo_def)

lemma demo_fonts:
  "registry (font_mem demo) (font_list demo) [(42, ''title'', 40), (52, ''body'', 50)]"
  by (simp add: demo_def)

subsection \<open>Well-formed lists on the heap\<close>

lemma registry_frame:
  "registry h p es \<Longrightarrow> c \<notin> fst ` set es \<Longrightarrow> registry (h(c := v)) p es"
proof (induction es arbitrary: p)
  case Nil
  then show ?case by simp
next
  case (Cons e es)
  obtain a nm pl where e: "e = (a, nm, pl)" by (cases e) auto
  from Cons.prems(1) obtain n where
    "p = Some a" "h a = Some (Live n)" "node_name n = nm" "payload n = pl"
    and rest: "registry h (node_next n) es"
    unfolding e by (rule registry_Cons_D)
  moreover from Cons.prems(2) have "c \<noteq> a" and "c \<notin> fst ` set es"
    unfolding e by auto
  moreover from this rest have "registry (h(c := v)) (node_next n) es"
    by (intro Cons.IH)
  moreover from \<open>c \<noteq> a\<close> have "(h(c := v)) a = h a" by simp
  ultimately show ?case unfolding e by (simp del: fun_upd_apply)
qed


lemma registry_functional:
  "registry h p es \<Longrightarrow> registry h p es' \<Longrightarrow> es = es'"
proof (induction es arbitrary: p es')
  case Nil
  then show ?case by (cases es') auto
next
  case (Cons e es)
  obtain a nm pl where e: "e = (a, nm, pl)" by (cases e) auto
  from Cons.prems(1) obtain n where
    p: "p = Some a" and ha: "h a = Some (Live n)" and nn: "node_name n = nm" "payload n = pl"
    and rest: "registry h (node_next n) es"
    unfolding e by (rule registry_Cons_D)
  show ?case
  proof (cases es')
    case Nil
    with Cons.prems(2) p show ?thesis by simp
  next
    case (Cons e' es2)
    obtain a' nm' pl' where e': "e' = (a', nm', pl')" by (cases e') auto
    from Cons.prems(2) obtain n' where
      "p = Some a'" "h a' = Some (Live n')" "node_name n' = nm'" "payload n' = pl'"
      "registry h (node_next n') es2"
      unfolding Cons e' by (rule registry_Cons_D)
    with p ha nn rest have "e = e'" and "registry h (node_next n) es2"
      unfolding e e' by auto
    with rest Cons.IH Cons show ?thesis by auto
  qed
qed

lemma registry_suffix:
  "registry h p es \<Longrightarrow> c \<in> fst ` set es \<Longrightarrow>
   \<exists>es1 es2. es = es1 @ es2 \<and> registry h (Some c) es2"
proof (induction es arbitrary: p)
  case Nil
  then show ?case by simp
next
  case (Cons e es)
  obtain a nm pl where e: "e = (a, nm, pl)" by (cases e) auto
  from Cons.prems(1) obtain n :: node where
    p: "p = Some a" and rest: "registry h (node_next n) es"
    unfolding e by (auto split: option.splits block.splits)
  show ?case
  proof (cases "c = a")
    case True
    with Cons.prems(1) p have "e # es = [] @ (e # es) \<and> registry h (Some c) (e # es)" by simp
    then show ?thesis by blast
  next
    case False
    with Cons.prems(2) have "c \<in> fst ` set es" unfolding e by auto
    with rest obtain es1 es2 where "es = es1 @ es2" "registry h (Some c) es2"
      using Cons.IH by blast
    then have "e # es = (e # es1) @ es2 \<and> registry h (Some c) es2" by simp
    then show ?thesis by blast
  qed
qed

lemma registry_distinct:
  "registry h p es \<Longrightarrow> distinct (map fst es)"
proof (induction es arbitrary: p)
  case Nil
  then show ?case by simp
next
  case (Cons e es)
  obtain a nm pl where e: "e = (a, nm, pl)" by (cases e) auto
  from Cons.prems obtain n :: node where
    p: "p = Some a" and rest: "registry h (node_next n) es"
    unfolding e by (auto split: option.splits block.splits)
  have "a \<notin> fst ` set es"
  proof
    assume "a \<in> fst ` set es"
    with rest obtain es1 es2 where es: "es = es1 @ es2" and r2: "registry h (Some a) es2"
      by (blast dest: registry_suffix)
    from Cons.prems p have "registry h (Some a) (e # es)" by simp
    with r2 have "es2 = e # es" by (rule registry_functional)
    with es have "length es2 = Suc (length es1 + length es2)" by simp
    then show False by simp
  qed
  moreover from rest have "distinct (map fst es)" by (rule Cons.IH)
  ultimately show ?case unfolding e by simp
qed










subsection \<open>Scans that find nothing\<close>

lemma destroy_object_by_id_loop_absent:
  "registry (olist_mem s) cur es \<Longrightarrow> list_all (other_id (object_mem s) i) es \<Longrightarrow>
   destroy_object_by_id_loop i s cur prev = Some (Inr s)"
proof (induction es arbitrary: cur prev)
  case Nil
  then show ?case by (simp add: destroy_object_by_id_loop.simps)
next
  case (Cons e es)
  obtain c nm pl where e: "e = (c, nm, pl)" by (cases e) auto
  from Cons.prems(1) obtain n where
    cur: "cur = Some c" and hc: "olist_mem s c = Some (Live n)" and pl: "payload n = pl"
    and rest: "registry (olist_mem s) (node_next n) es"
    unfolding e by (rule registry_Cons_D)
  from Cons.prems(2) have oe: "other_id (object_mem s) i (c, nm, pl)"
    and all: "list_all (other_id (object_mem s) i) es"
    unfolding e by simp_all
  from oe obtain ob where
    ob: "object_mem s pl = Some (Live ob)" and ne: "o_id ob \<noteq> i"
    by (rule other_id_D)
  have "destroy_object_by_id_loop i s (node_next n) (Some c) = Some (Inr s)"
    by (rule Cons.IH [OF rest all])
  then show ?case
    using cur hc pl ob ne
    by (subst destroy_object_by_id_loop.simps) (simp add: deref_def)
qed

lemma get_object_by_id_loop_absent:
  "registry (olist_mem s) cur es \<Longrightarrow> list_all (other_id (object_mem s) i) es \<Longrightarrow>
   get_object_by_id_loop i s cur = Some (Inl (ObjectNotFoundById i))"
proof (induction es arbitrary: cur)
  case Nil
  then show ?case by (simp add: get_object_by_id_loop.simps)
next
  case (Cons e es)
  obtain c nm pl where e: "e = (c, nm, pl)" by (cases e) auto
  from Cons.prems(1) obtain n where
    cur: "cur = Some c" and hc: "olist_mem s c = Some (Live n)" and pl: "payload n = pl"
    and rest: "registry (olist_mem s) (node_next n) es"
    unfolding e by (rule registry_Cons_D)
  from Cons.prems(2) have oe: "other_id (object_mem s) i (c, nm, pl)"
    and all: "list_all (other_id (object_mem s) i) es"
    unfolding e by simp_all
  from oe obtain ob where
    ob: "object_mem s pl = Some (Live ob)" and ne: "o_id ob \<noteq> i"
    by (rule other_id_D)
  have "get_object_by_id_loop i s (node_next n) = Some (Inl (ObjectNotFoundById i))"
    by (rule Cons.IH [OF rest all])
  then show ?case
    using cur hc pl ob ne
    by (subst get_object_by_id_loop.simps) (simp add: deref_def)
qed

lemma close_font_loop_absent:
  "registry (font_mem s) cur es \<Longrightarrow> nm \<notin> entry_name ` set es \<Longrightarrow>
   close_font_loop nm s cur prev = Some (Inr s)"
proof (induction es arbitrary: cur prev)
  case Nil
  then show ?case by (simp add: close_font_loop.simps)
next
  case (Cons e es)
  obtain c en pl where e: "e = (c, en, pl)" by (cases e) auto
  from Cons.prems(1) obtain n where
    cur: "cur = Some c" and hc: "font_mem s c = Some (Live n)" and en: "node_name n = en"
    and rest: "registry (font_mem s) (node_next n) es"
    unfolding e by (rule registry_Cons_D)
  from Cons.prems(2) have ne: "en \<noteq> nm" and all: "nm \<notin> entry_name ` set es"
    unfolding e by (auto simp: entry_name_def)
  have "close_font_loop nm s (node_next n) (Some c) = Some (Inr s)"
    by (rule Cons.IH [OF rest all])
  then show ?case
    using cur hc en ne
    by (subst close_font_loop.simps) (simp add: deref_def)
qed

subsection \<open>Collision and hovering\<close>

text \<open>
  C3. \<^verbatim>\<open>hitbox_is_colliding(a, b)\<close> is the strict overlap test
  \<open>a.x < b.x + b.width \<and> a.x + a.width > b.x \<and> a.y < b.y + b.height \<and> a.y + a.height > b.y\<close>:
  it returns exactly that value whenever the sums fit a C int, and whenever it returns a
  value at all. The boxes \<open>{0,0,10,10}\<close> and \<open>{10,0,10,10}\<close>, which touch, do not
  collide; \<open>{0,0,10,10}\<close> and \<open>{9,0,10,10}\<close>, which overlap by one pixel, do.
\<close>

theorem hitbox_is_colliding_strict:
  "(extent_ok a \<and> extent_ok b \<longrightarrow>
      hitbox_is_colliding a b =
        Inr (sint (o_x a) < sint (o_x b) + sint (o_width b) \<and>
             sint (o_x a) + sint (o_width a) > sint (o_x b) \<and>
             sint (o_y a) < sint (o_y b) + sint (o_height b) \<and>
             sint (o_y a) + sint (o_height a) > sint (o_y b))) \<and>
   (\<forall>res. hitbox_is_colliding a b = Inr res \<longrightarrow>
      res = (sint (o_x a) < sint (o_x b) + sint (o_width b) \<and>
             sint (o_x a) + sint (o_width a) > sint (o_x b) \<and>
             sint (o_y a) < sint (o_y b) + sint (o_height b) \<and>
             sint (o_y a) + sint (o_height a) > sint (o_y b))) \<and>
   hitbox_is_colliding (box 0 0 10 10) (box 10 0 10 10) = Inr False \<and>
   hitbox_is_colliding (box 0 0 10 10) (box 9 0 10 10) = Inr True"
proof (intro conjI impI allI)
  assume "extent_ok a \<and> extent_ok b"
  then show "hitbox_is_colliding a b =
        Inr (sint (o_x a) < sint (o_x b) + sint (o_width b) \<and>
             sint (o_x a) + sint (o_width a) > sint (o_x b) \<and>
             sint (o_y a) < sint (o_y b) + sint (o_height b) \<and>
             sint (o_y a) + sint (o_height a) > sint (o_y b))"
    by (auto simp: hitbox_is_colliding_def extent_ok_def int_lt_def int_gt_def int_add_None
             dest!: int_add_Some split: option.splits)
next
  fix res
  assume "hitbox_is_colliding a b = Inr res"
  then show "res = (sint (o_x a) < sint (o_x b) + sint (o_width b) \<and>
             sint (o_x a) + sint (o_width a) > sint (o_x b) \<and>
             sint (o_y a) < sint (o_y b) + sint (o_height b) \<and>
             sint (o_y a) + sint (o_height a) > sint (o_y b))"
    by (auto simp: hitbox_is_colliding_def int_lt_def int_gt_def
             dest!: int_add_Some split: option.splits if_splits)
next
  show "hitbox_is_colliding (box 0 0 10 10) (box 10 0 10 10) = Inr False"
    by (simp add: hitbox_is_colliding_def box_def int_add_def int_lt_def int_gt_def)
next
  show "hitbox_is_colliding (box 0 0 10 10) (box 9 0 10 10) = Inr True"
    by (simp add: hitbox_is_colliding_def box_def int_add_def int_lt_def int_gt_def)
qed

theorem hitbox_is_colliding_strict_witness:
  "extent_ok (box 3 4 5 6) \<and> extent_ok (box 7 9 2 2) \<and>
   hitbox_is_colliding (box 3 4 5 6) (box 7 9 2 2) = Inr True \<and>
   hitbox_is_colliding (box 3 4 5 6) (box 8 9 2 2) = Inr False"
proof -
  have e1: "extent_ok (box 3 4 5 6)" and e2: "extent_ok (box 7 9 2 2)"
    and e3: "extent_ok (box 8 9 2 2)"
    by (simp_all add: extent_ok_def box_def)
  from hitbox_is_colliding_strict [of "box 3 4 5 6" "box 7 9 2 2"] e1 e2
  have "hitbox_is_colliding (box 3 4 5 6) (box 7 9 2 2) = Inr True"
    by (simp add: box_def)
  moreover
  from hitbox_is_colliding_strict [of "box 3 4 5 6" "box 8 9 2 2"] e1 e3
  have "hitbox_is_colliding (box 3 4 5 6) (box 8 9 2 2) = Inr False"
    by (simp add: box_def)
  ultimately show ?thesis using e1 e2 by simp
qed

text \<open>
  C4. With the engine initialised, \<^verbatim>\<open>object_is_hovered\<close> returns true exactly when the
  pointer lies in \<open>[x, x + width] \<times> [y, y + height]\<close>, both ends included; for an
  object whose width and height are not negative the pointer at \<open>(x + width, y + height)\<close>
  hovers.
\<close>

theorem object_is_hovered_inclusive:
  assumes "engine s \<noteq> None"
  shows "(extent_ok ob \<longrightarrow>
            object_is_hovered s (mx, my) ob =
              Inr (sint (o_x ob) \<le> sint mx \<and> sint mx \<le> sint (o_x ob) + sint (o_width ob) \<and>
                   sint (o_y ob) \<le> sint my \<and> sint my \<le> sint (o_y ob) + sint (o_height ob))) \<and>
         (\<forall>res. object_is_hovered s (mx, my) ob = Inr res \<longrightarrow>
            res = (sint (o_x ob) \<le> sint mx \<and> sint mx \<le> sint (o_x ob) + sint (o_width ob) \<and>
                   sint (o_y ob) \<le> sint my \<and> sint my \<le> sint (o_y ob) + sint (o_height ob))) \<and>
         (extent_ok ob \<and> 0 \<le> sint (o_width ob) \<and> 0 \<le> sint (o_height ob) \<longrightarrow>
            object_is_hovered s (o_x ob + o_width ob, o_y ob + o_height ob) ob = Inr True)"
proof (intro conjI impI allI)
  assume "extent_ok ob"
  with assms show "object_is_hovered s (mx, my) ob =
              Inr (sint (o_x ob) \<le> sint mx \<and> sint mx \<le> sint (o_x ob) + sint (o_width ob) \<and>
                   sint (o_y ob) \<le> sint my \<and> sint my \<le> sint (o_y ob) + sint (o_height ob))"
    by (auto simp: object_is_hovered_def assert_engine_init_def extent_ok_def int_le_def
                   int_ge_def int_add_None Let_def
             dest!: int_add_Some split: option.splits)
next
  fix res
  assume "object_is_hovered s (mx, my) ob = Inr res"
  then show "res = (sint (o_x ob) \<le> sint mx \<and> sint mx \<le> sint (o_x ob) + sint (o_width ob) \<and>
                   sint (o_y ob) \<le> sint my \<and> sint my \<le> sint (o_y ob) + sint (o_height ob))"
    by (auto simp: object_is_hovered_def assert_engine_init_def int_le_def int_ge_def Let_def
             dest!: int_add_Some split: option.splits if_splits sum.splits)
next
  assume "extent_ok ob \<and> 0 \<le> sint (o_width ob) \<and> 0 \<le> sint (o_height ob)"
  with assms show "object_is_hovered s (o_x ob + o_width ob, o_y ob + o_height ob) ob = Inr True"
    by (auto simp: object_is_hovered_def assert_engine_init_def extent_ok_def int_le_def
                   int_ge_def int_add_def Let_def sint_word_ariths signed_take_bit_int_eq_self
             split: option.splits)
qed

theorem object_is_hovered_inclusive_witness:
  "engine started \<noteq> None \<and> extent_ok (box 3 4 5 6) \<and>
   0 \<le> sint (o_width (box 3 4 5 6)) \<and> 0 \<le> sint (o_height (box 3 4 5 6)) \<and>
   object_is_hovered started (8, 10) (box 3 4 5 6) = Inr True \<and>
   object_is_hovered started (9, 10) (box 3 4 5 6) = Inr False"
proof -
  have e: "engine started \<noteq> None"
    by (simp add: started_def engine_init_def initial_state_def)
  have x: "extent_ok (box 3 4 5 6)"
    by (simp add: extent_ok_def box_def)
  have n: "0 \<le> sint (o_width (box 3 4 5 6))" "0 \<le> sint (o_height (box 3 4 5 6))"
    by (simp_all add: box_def)
  from object_is_hovered_inclusive [OF e, of "box 3 4 5 6" 8 10] x
  have "object_is_hovered started (8, 10) (box 3 4 5 6) = Inr True"
    by (simp add: box_def)
  moreover
  from object_is_hovered_inclusive [OF e, of "box 3 4 5 6" 9 10] x
  have "object_is_hovered started (9, 10) (box 3 4 5 6) = Inr False"
    by (simp add: box_def)
  ultimately show ?thesis using e x n by simp
qed

subsection \<open>Tiles\<close>

text \<open>
  C7. With the engine initialised, a live tilemap and a successful allocation,
  \<^verbatim>\<open>get_tile\<close> fails exactly when \<open>row \<ge> nb_rows\<close> or \<open>col \<ge> nb_cols\<close>, and the failure
  is the out-of-bounds one; \<open>row = nb_rows\<close> fails; there is no lower bound, so indices
  below the counts, negative ones included, give a tile.
\<close>

theorem get_tile_upper_bound_only:
  assumes "engine s \<noteq> None" and "tilemap_mem s tm = Some (Live t)"
  shows "((\<exists>e. get_tile s tm row col (Some p) = Inl e) \<longleftrightarrow>
            (sint (nb_rows t) \<le> sint row \<or> sint (nb_cols t) \<le> sint col)) \<and>
         (sint (nb_rows t) \<le> sint row \<or> sint (nb_cols t) \<le> sint col \<longrightarrow>
            get_tile s tm row col new = Inl TileOutOfBounds) \<and>
         get_tile s tm (nb_rows t) col new = Inl TileOutOfBounds \<and>
         (sint row < sint (nb_rows t) \<and> sint col < sint (nb_cols t) \<longrightarrow>
            get_tile s tm row col (Some p) =
              Inr (p, s\<lparr>tile_mem := (tile_mem s)(p \<mapsto> Live \<lparr>t_tilemap = tm, t_row = row, t_col = col\<rparr>)\<rparr>)) \<and>
         (sint row < 0 \<and> sint col < 0 \<and> 0 \<le> sint (nb_rows t) \<and> 0 \<le> sint (nb_cols t) \<longrightarrow>
            (\<exists>s'. get_tile s tm row col (Some p) = Inr (p, s')))"
  using assms
  by (auto simp: get_tile_def assert_engine_init_def deref_def int_ge_def split: option.splits)

theorem get_tile_upper_bound_only_witness:
  "engine with_tilemap \<noteq> None \<and>
   tilemap_mem with_tilemap 7 =
     Some (Live \<lparr>tm_texture = Some 9, tile_width = 16, tile_height = 16, spacing = 1,
                 nb_rows = 4, nb_cols = 3\<rparr>) \<and>
   get_tile with_tilemap 7 4 0 (Some 20) = Inl TileOutOfBounds \<and>
   get_tile with_tilemap 7 3 3 (Some 20) = Inl TileOutOfBounds \<and>
   (\<exists>s'. get_tile with_tilemap 7 3 2 (Some 20) = Inr (20, s')) \<and>
   (\<exists>s'. get_tile with_tilemap 7 (- 1) (- 2) (Some 20) = Inr (20, s'))"
proof -
  have e: "engine with_tilemap \<noteq> None"
    by (simp add: with_tilemap_def create_tilemap_def assert_engine_init_def started_def
                  engine_init_def initial_state_def)
  have m: "tilemap_mem with_tilemap 7 =
     Some (Live \<lparr>tm_texture = Some 9, tile_width = 16, tile_height = 16, spacing = 1,
                 nb_rows = 4, nb_cols = 3\<rparr>)"
    by (simp add: with_tilemap_def create_tilemap_def assert_engine_init_def started_def
                  engine_init_def initial_state_def)
  from get_tile_upper_bound_only [OF e m, of 4 0 20 "Some 20"]
  have a: "get_tile with_tilemap 7 4 0 (Some 20) = Inl TileOutOfBounds" by simp
  from get_tile_upper_bound_only [OF e m, of 3 3 20 "Some 20"]
  have b: "get_tile with_tilemap 7 3 3 (Some 20) = Inl TileOutOfBounds" by simp
  from get_tile_upper_bound_only [OF e m, of 3 2 20 "Some 20"]
  have c: "\<exists>s'. get_tile with_tilemap 7 3 2 (Some 20) = Inr (20, s')" by simp
  from get_tile_upper_bound_only [OF e m, of "- 1" "- 2" 20 "Some 20"]
  have d: "\<exists>s'. get_tile with_tilemap 7 (- 1) (- 2) (Some 20) = Inr (20, s')" by simp
  from e m a b c d show ?thesis by simp
qed

subsection \<open>Shapes and the draw colour\<close>

text \<open>
  C9. With the engine initialised, every shape-drawing call (line, rectangle, ellipse,
  circle and the thick variants) returns, and on return the draw colour of the renderer
  is the tracked colour \<^verbatim>\<open>_color\<close>, which the call leaves as it was; at process start
  the tracked colour is opaque black \<open>{0,0,0,255}\<close>.
\<close>

theorem shape_calls_restore_color:
  assumes "engine s \<noteq> None"
  shows "(\<exists>s'. draw_shape s call = Inr s' \<and> draw_color s' = color s' \<and> color s' = color s) \<and>
         color initial_state = \<lparr>c_r = 0, c_g = 0, c_b = 0, c_a = 255\<rparr>"
proof
  show "\<exists>s'. draw_shape s call = Inr s' \<and> draw_color s' = color s' \<and> color s' = color s"
    using assms
    by (cases call)
       (auto simp: draw_line_def draw_rect_def draw_ellipse_def draw_circle_def
          draw_line_thick_def draw_rect_thick_def draw_circle_thick_def draw_ellipse_thick_def
          assert_engine_init_def gfx_def SDL_SetRenderDrawColor_def Let_def)
  show "color initial_state = \<lparr>c_r = 0, c_g = 0, c_b = 0, c_a = 255\<rparr>"
    by (simp add: initial_state_def opaque_black_def)
qed

theorem shape_calls_restore_color_witness:
  "engine demo \<noteq> None \<and>
   (\<exists>s'. draw_shape demo (Draw_rect_thick 1 2 30 40 \<lparr>c_r = 255, c_g = 0, c_b = 0, c_a = 128\<rparr> 3) = Inr s' \<and>
         draw_color s' = \<lparr>c_r = 0, c_g = 0, c_b = 0, c_a = 255\<rparr> \<and> length (canvas s') = 4)"
proof -
  from shape_calls_restore_color [OF demo_engine,
      of "Draw_rect_thick 1 2 30 40 \<lparr>c_r = 255, c_g = 0, c_b = 0, c_a = 128\<rparr> 3"]
  obtain s' where
    d: "draw_shape demo (Draw_rect_thick 1 2 30 40 \<lparr>c_r = 255, c_g = 0, c_b = 0, c_a = 128\<rparr> 3) = Inr s'"
    and c: "draw_color s' = color s'" "color s' = color demo"
    by blast
  from c have "draw_color s' = \<lparr>c_r = 0, c_g = 0, c_b = 0, c_a = 255\<rparr>"
    by (simp add: demo_def opaque_black_def)
  moreover from d have "length (canvas s') = 4"
    by (auto simp: draw_rect_thick_def assert_engine_init_def gfx_def SDL_SetRenderDrawColor_def
          Let_def demo_def)
  ultimately show ?thesis using d demo_engine by blast
qed

subsection \<open>Removing what is not there\<close>

text \<open>
  C10. With the engine initialised, \<^verbatim>\<open>destroy_object_by_id\<close> with an id that no
  registered object has returns and leaves the whole state as it was, where
  \<^verbatim>\<open>get_object_by_id\<close> with the same id ends the process; \<^verbatim>\<open>close_font\<close> with a name
  that no registered font has returns and leaves the whole state as it was. Neither
  prints a diagnostic: the result is a return, not an error.
\<close>

theorem removal_of_absent_key_is_noop:
  assumes "engine s \<noteq> None"
  shows "(registry (olist_mem s) (object_list s) es \<and> list_all (other_id (object_mem s) i) es \<longrightarrow>
            destroy_object_by_id s i = Some (Inr s) \<and>
            get_object_by_id s i = Some (Inl (ObjectNotFoundById i))) \<and>
         (registry (font_mem s) (font_list s) fs \<and> nm \<notin> entry_name ` set fs \<longrightarrow>
            close_font s nm = Some (Inr s))"
  using assms
  by (auto simp: destroy_object_by_id_def get_object_by_id_def close_font_def
        assert_engine_init_def destroy_object_by_id_loop_absent get_object_by_id_loop_absent
        close_font_loop_absent)

theorem removal_of_absent_key_is_noop_witness:
  "engine demo \<noteq> None \<and>
   registry (olist_mem demo) (object_list demo) [(12, ''a'', 10), (22, ''a'', 20), (32, ''b'', 30)] \<and>
   list_all (other_id (object_mem demo) 7) [(12, ''a'', 10), (22, ''a'', 20), (32, ''b'', 30)] \<and>
   registry (font_mem demo) (font_list demo) [(42, ''title'', 40), (52, ''body'', 50)] \<and>
   ''missing'' \<notin> entry_name ` set [(42, ''title'', 40), (52, ''body'', 50)] \<and>
   destroy_object_by_id demo 7 = Some (Inr demo) \<and>
   get_object_by_id demo 7 = Some (Inl (ObjectNotFoundById 7)) \<and>
   close_font demo ''missing'' = Some (Inr demo)"
proof -
  have o: "list_all (other_id (object_mem demo) 7) [(12, ''a'', 10), (22, ''a'', 20), (32, ''b'', 30)]"
    by (simp add: other_id_def entry_payload_def demo_def box_def)
  have f: "''missing'' \<notin> entry_name ` set [(42, ''title'', 40), (52, ''body'', 50)]"
    by (simp add: entry_name_def)
  from removal_of_absent_key_is_noop [OF demo_engine,
      of "[(12, ''a'', 10), (22, ''a'', 20), (32, ''b'', 30)]" 7
         "[(42, ''title'', 40), (52, ''body'', 50)]" "''missing''"]
    demo_objects o demo_fonts f
  have "destroy_object_by_id demo 7 = Some (Inr demo) \<and>
        get_object_by_id demo 7 = Some (Inl (ObjectNotFoundById 7)) \<and>
        close_font demo ''missing'' = Some (Inr demo)"
    by blast
  with demo_engine demo_objects o demo_fonts f show ?thesis by blast
qed

subsection \<open>Insertion order and first match\<close>















subsection \<open>Destroying templates by name\<close>

lemma release_Live:
  "h c = Some (Live v) \<Longrightarrow> release h c = (h(c \<mapsto> Freed v), False)"
  by (simp add: release_def)

lemma tlist_mem_free_template_node:
  "tlist_mem s c = Some (Live n) \<Longrightarrow>
   tlist_mem (free_template_node s c t) = (tlist_mem s)(c \<mapsto> Freed n)"
  by (simp add: free_template_node_def release_Live touch_def split: prod.splits)

lemma head_free_template_node:
  "object_template_list (free_template_node s c t) = object_template_list s"
  by (simp add: free_template_node_def touch_def split: prod.splits)

lemma destroy_object_template_loop_after:
  assumes "registry (tlist_mem s) cur es"
    and "tlist_mem s p = Some (Live pn)"
    and "node_next pn = cur"
    and "p \<notin> fst ` set es"
  shows "\<exists>s' pn'. destroy_object_template_loop nm s cur (Some p) = Some (Inr s') \<and>
           tlist_mem s' p = Some (Live pn') \<and>
           node_name pn' = node_name pn \<and> payload pn' = payload pn \<and>
           registry (tlist_mem s') (node_next pn') (remove_first nm es) \<and>
           object_template_list s' = object_template_list s \<and>
           (\<forall>q. q \<noteq> p \<and> q \<notin> fst ` set es \<longrightarrow> tlist_mem s' q = tlist_mem s q)"
  using assms
proof (induction es arbitrary: s cur p pn)
  case Nil
  then have "cur = None" by simp
  with Nil show ?case
    by (subst destroy_object_template_loop.simps) simp
next
  case (Cons e es)
  obtain c cn cp where e: "e = (c, cn, cp)" by (cases e) auto
  from Cons.prems(1) obtain n where
    cur: "cur = Some c" and hc: "tlist_mem s c = Some (Live n)"
    and nn: "node_name n = cn" "payload n = cp"
    and rest: "registry (tlist_mem s) (node_next n) es"
    unfolding e by (rule registry_Cons_D)
  from Cons.prems(1) have "distinct (map fst (e # es))" by (rule registry_distinct)
  then have c_notin: "c \<notin> fst ` set es" unfolding e by auto
  from Cons.prems(4) have pc: "p \<noteq> c" and p_notin: "p \<notin> fst ` set es" unfolding e by auto
  show ?case
  proof (cases "cn = nm")
    case True
    let ?pn' = "pn\<lparr>node_next := node_next n\<rparr>"
    let ?h1 = "(tlist_mem s)(p \<mapsto> Live ?pn')"
    let ?s1 = "s\<lparr>tlist_mem := ?h1\<rparr>"
    let ?s' = "free_template_node ?s1 c cp"
    from Cons.prems(2) have un: "unlink_template s (Some p) (node_next n) = Inr ?s1"
      by (simp add: unlink_template_def set_next_def)
    from pc hc have h1c: "tlist_mem ?s1 c = Some (Live n)" by simp
    then have mem': "tlist_mem ?s' = ?h1(c \<mapsto> Freed n)"
      by (simp add: tlist_mem_free_template_node del: fun_upd_apply)
    have run: "destroy_object_template_loop nm s cur (Some p) = Some (Inr ?s')"
      using cur hc nn True un
      by (subst destroy_object_template_loop.simps) (simp add: deref_def)
    from rest p_notin have "registry ?h1 (node_next n) es" by (rule registry_frame)
    then have "registry (?h1(c \<mapsto> Freed n)) (node_next n) es"
      using c_notin by (rule registry_frame)
    with mem' have reg: "registry (tlist_mem ?s') (node_next ?pn') (remove_first nm (e # es))"
      using True unfolding e by (simp add: entry_name_def)
    from mem' pc have p': "tlist_mem ?s' p = Some (Live ?pn')" by simp
    have head: "object_template_list ?s' = object_template_list s"
      by (simp add: head_free_template_node)
    have frame: "\<forall>q. q \<noteq> p \<and> q \<notin> fst ` set (e # es) \<longrightarrow> tlist_mem ?s' q = tlist_mem s q"
      using mem' unfolding e by simp
    from run p' reg head frame show ?thesis
      by (intro exI [of _ ?s'] exI [of _ ?pn']) simp
  next
    case False
    from rest hc c_notin
    obtain s' n' where
      run': "destroy_object_template_loop nm s (node_next n) (Some c) = Some (Inr s')"
      and c': "tlist_mem s' c = Some (Live n')"
      and same: "node_name n' = node_name n" "payload n' = payload n"
      and reg': "registry (tlist_mem s') (node_next n') (remove_first nm es)"
      and head': "object_template_list s' = object_template_list s"
      and frame': "\<forall>q. q \<noteq> c \<and> q \<notin> fst ` set es \<longrightarrow> tlist_mem s' q = tlist_mem s q"
      using Cons.IH [of s "node_next n" c n] by blast
    have run: "destroy_object_template_loop nm s cur (Some p) = Some (Inr s')"
      using cur hc nn False run'
      by (subst destroy_object_template_loop.simps) (simp add: deref_def)
    from frame' pc p_notin Cons.prems(2) have p': "tlist_mem s' p = Some (Live pn)" by simp
    from Cons.prems(3) cur have "node_next pn = Some c" by simp
    with c' same nn reg' False
    have reg: "registry (tlist_mem s') (node_next pn) (remove_first nm (e # es))"
      unfolding e by (simp add: entry_name_def)
    have frame: "\<forall>q. q \<noteq> p \<and> q \<notin> fst ` set (e # es) \<longrightarrow> tlist_mem s' q = tlist_mem s q"
      using frame' unfolding e by simp
    from run p' reg head' frame show ?thesis
      by (intro exI [of _ s'] exI [of _ pn]) simp
  qed
qed

lemma destroy_object_template_loop_head:
  assumes "registry (tlist_mem s) (object_template_list s) es"
  shows "\<exists>s'. destroy_object_template_loop nm s (object_template_list s) None = Some (Inr s') \<and>
           registry (tlist_mem s') (object_template_list s') (remove_first nm es)"
proof (cases es)
  case Nil
  with assms show ?thesis
    by (subst destroy_object_template_loop.simps) simp
next
  case (Cons e es')
  obtain c cn cp where e: "e = (c, cn, cp)" by (cases e) auto
  from assms obtain n where
    cur: "object_template_list s = Some c" and hc: "tlist_mem s c = Some (Live n)"
    and nn: "node_name n = cn" "payload n = cp"
    and rest: "registry (tlist_mem s) (node_next n) es'"
    unfolding Cons e by (rule registry_Cons_D)
  from assms have "distinct (map fst es)" by (rule registry_distinct)
  then have c_notin: "c \<notin> fst ` set es'" unfolding Cons e by auto
  show ?thesis
  proof (cases "cn = nm")
    case True
    let ?s1 = "s\<lparr>object_template_list := node_next n\<rparr>"
    let ?s' = "free_template_node ?s1 c cp"
    from hc have "tlist_mem ?s1 c = Some (Live n)" by simp
    then have mem': "tlist_mem ?s' = (tlist_mem s)(c \<mapsto> Freed n)"
      by (simp add: tlist_mem_free_template_node del: fun_upd_apply)
    have run: "destroy_object_template_loop nm s (object_template_list s) None = Some (Inr ?s')"
      using cur hc nn True
      by (subst destroy_object_template_loop.simps) (simp add: deref_def unlink_template_def)
    from rest c_notin have "registry ((tlist_mem s)(c \<mapsto> Freed n)) (node_next n) es'"
      by (rule registry_frame)
    with mem' have "registry (tlist_mem ?s') (object_template_list ?s') (remove_first nm es)"
      using True unfolding Cons e by (simp add: entry_name_def head_free_template_node)
    with run show ?thesis by blast
  next
    case False
    from rest hc c_notin
    obtain s' n' where
      run': "destroy_object_template_loop nm s (node_next n) (Some c) = Some (Inr s')"
      and c': "tlist_mem s' c = Some (Live n')"
      and same: "node_name n' = node_name n" "payload n' = payload n"
      and reg': "registry (tlist_mem s') (node_next n') (remove_first nm es')"
      and head': "object_template_list s' = object_template_list s"
      using destroy_object_template_loop_after [of s "node_next n" es' c n nm] by blast
    have run: "destroy_object_template_loop nm s (object_template_list s) None = Some (Inr s')"
      using cur hc nn False run'
      by (subst destroy_object_template_loop.simps) (simp add: deref_def)
    from c' same nn reg' head' cur False
    have "registry (tlist_mem s') (object_template_list s') (remove_first nm es)"
      unfolding Cons e by (simp add: entry_name_def)
    with run show ?thesis by blast
  qed
qed

text \<open>
  C2, as the code has it. With the engine initialised and a well-formed template
  registry holding \<open>es\<close>, \<^verbatim>\<open>destroy_object_template\<close> returns and the registry holds
  \<open>es\<close> without the first entry of the given name: it stops at the first match, and
  later entries of the same name stay registered, in their order.
\<close>

theorem destroy_object_template_removes_first_match:
  assumes "engine s \<noteq> None" and "registry (tlist_mem s) (object_template_list s) es"
  shows "\<exists>s'. destroy_object_template s nm = Some (Inr s') \<and>
              registry (tlist_mem s') (object_template_list s') (remove_first nm es)"
proof -
  from assms(1) have "destroy_object_template s nm =
      destroy_object_template_loop nm s (object_template_list s) None"
    by (auto simp: destroy_object_template_def assert_engine_init_def)
  with destroy_object_template_loop_head [OF assms(2), of nm] show ?thesis by simp
qed

theorem destroy_object_template_removes_first_match_witness:
  "engine demo \<noteq> None \<and>
   registry (tlist_mem demo) (object_template_list demo) [(112, ''a'', 110), (122, ''a'', 120)] \<and>
   (\<exists>s'. destroy_object_template demo ''a'' = Some (Inr s') \<and>
         registry (tlist_mem s') (object_template_list s') [(122, ''a'', 120)]) \<and>
   (\<exists>s'. destroy_object_template demo ''b'' = Some (Inr s') \<and>
         registry (tlist_mem s') (object_template_list s') [(112, ''a'', 110), (122, ''a'', 120)])"
proof -
  from destroy_object_template_removes_first_match [OF demo_engine demo_templates, of "''a''"]
  have a: "\<exists>s'. destroy_object_template demo ''a'' = Some (Inr s') \<and>
         registry (tlist_mem s') (object_template_list s') [(122, ''a'', 120)]"
    by (simp add: entry_name_def)
  from destroy_object_template_removes_first_match [OF demo_engine demo_templates, of "''b''"]
  have b: "\<exists>s'. destroy_object_template demo ''b'' = Some (Inr s') \<and>
         registry (tlist_mem s') (object_template_list s') [(112, ''a'', 110), (122, ''a'', 120)]"
    by (simp add: entry_name_def)
  from demo_engine demo_templates a b show ?thesis by blast
qed

text \<open>
  C2, as stated, fails: with two templates named a registered, the call for a returns
  with the second one still registered, and a lookup of a finds it.
\<close>

theorem destroy_object_template_keeps_second_match:
  "registry (tlist_mem demo) (object_template_list demo) [(112, ''a'', 110), (122, ''a'', 120)] \<and>
   destroy_object_template demo ''a'' = Some (Inr demo_less_template) \<and>
   registry (tlist_mem demo_less_template) (object_template_list demo_less_template)
     [(122, ''a'', 120)] \<and>
   get_template_by_name demo_less_template ''a'' = Some (Inr (120, demo_less_template))"
proof (intro conjI)
  show "registry (tlist_mem demo) (object_template_list demo) [(112, ''a'', 110), (122, ''a'', 120)]"
    by (rule demo_templates)
  show "destroy_object_template demo ''a'' = Some (Inr demo_less_template)"
    by (simp add: demo_less_template_def demo_def destroy_object_template_def
          assert_engine_init_def destroy_object_template_loop.simps deref_def
          unlink_template_def free_template_node_def release_def touch_def Let_def fun_eq_iff)
  show "registry (tlist_mem demo_less_template) (object_template_list demo_less_template)
     [(122, ''a'', 120)]"
    by (simp add: demo_less_template_def demo_def)
  show "get_template_by_name demo_less_template ''a'' = Some (Inr (120, demo_less_template))"
    by (simp add: demo_less_template_def demo_def get_template_by_name_def
          assert_engine_init_def get_template_by_name_loop.simps deref_def)
qed

subsection \<open>Destroying objects by name\<close>

text \<open>
  C1, at the registry a, a, b that three calls of \<^verbatim>\<open>create_object\<close> build.
  \<^verbatim>\<open>destroy_object_by_name("a")\<close> frees both nodes named a, but it advances with
  \<^verbatim>\<open>prev = current; current = current->next\<close> after the node has been freed: the second
  unlink writes into the freed first node instead of the head pointer. On return
  \<^verbatim>\<open>_object_list\<close> holds the address of the freed second node, freed memory has been read
  and written, and the registry is not the list that holds b alone; a lookup of a still
  walks into the freed node and returns its freed object.
\<close>

theorem destroy_object_by_name_adjacent_matches:
  "run demo_calls initial_state = Some (Inr ([0, 1, 2], demo)) \<and>
   registry (olist_mem demo) (object_list demo) [(12, ''a'', 10), (22, ''a'', 20), (32, ''b'', 30)] \<and>
   destroy_object_by_name demo ''a'' = Some (Inr demo_less_objects) \<and>
   object_list demo_less_objects = Some 22 \<and>
   olist_mem demo_less_objects 22 =
     Some (Freed \<lparr>payload = 20, node_name = ''a'', node_next = Some 32\<rparr>) \<and>
   stale demo_less_objects \<and>
   \<not> registry (olist_mem demo_less_objects) (object_list demo_less_objects) [(32, ''b'', 30)] \<and>
   get_object_by_name demo_less_objects ''a'' = Some (Inr (20, demo_less_objects))"
proof (intro conjI)
  show "run demo_calls initial_state = Some (Inr ([0, 1, 2], demo))"
    by (rule demo_reachable)
  show "registry (olist_mem demo) (object_list demo) [(12, ''a'', 10), (22, ''a'', 20), (32, ''b'', 30)]"
    by (rule demo_objects)
  show "destroy_object_by_name demo ''a'' = Some (Inr demo_less_objects)"
    by (simp add: demo_less_objects_def demo_def destroy_object_by_name_def
          assert_engine_init_def destroy_object_by_name_loop.simps deref_def unlink_object_def
          free_object_node_def release_def touch_def set_next_def Let_def fun_eq_iff box_def)
  show "object_list demo_less_objects = Some 22"
    by (simp add: demo_less_objects_def)
  show "olist_mem demo_less_objects 22 =
     Some (Freed \<lparr>payload = 20, node_name = ''a'', node_next = Some 32\<rparr>)"
    by (simp add: demo_less_objects_def)
  show "stale demo_less_objects"
    by (simp add: demo_less_objects_def)
  show "\<not> registry (olist_mem demo_less_objects) (object_list demo_less_objects) [(32, ''b'', 30)]"
    by (simp add: demo_less_objects_def)
  show "get_object_by_name demo_less_objects ''a'' = Some (Inr (20, demo_less_objects))"
    by (simp add: demo_less_objects_def demo_def get_object_by_name_def assert_engine_init_def
          get_object_by_name_loop.simps deref_def touch_def)
qed

text \<open>
  When the nodes of the given name are not neighbours the same loop leaves the list that
  the doc comment promises: from a, b, a the registry that holds b alone. The read of
  \<open>next\<close> from the node just freed happens here as well.
\<close>

lemma destroy_object_by_name_separated_matches:
  "\<exists>s'. destroy_object_by_name aba ''a'' = Some (Inr s') \<and>
        registry (olist_mem s') (object_list s') [(22, ''b'', 20)] \<and> stale s'"
  by (simp add: aba_def destroy_object_by_name_def assert_engine_init_def
        destroy_object_by_name_loop.simps deref_def unlink_object_def free_object_node_def
        release_def touch_def set_next_def Let_def)

subsection \<open>The id counter\<close>

lemma object_id_touch [simp]: "object_id (touch s f) = object_id s"
  by (simp add: touch_def)

lemma object_mem_touch [simp]: "object_mem (touch s f) = object_mem s"
  by (simp add: touch_def)

lemma object_id_free_object_node [simp]: "object_id (free_object_node s c ob) = object_id s"
  by (simp add: free_object_node_def touch_def split: prod.splits)

lemma object_id_free_template_node [simp]: "object_id (free_template_node s c t) = object_id s"
  by (simp add: free_template_node_def touch_def split: prod.splits)

lemma object_id_close_font_node [simp]: "object_id (close_font_node s c f) = object_id s"
  by (simp add: close_font_node_def touch_def split: prod.splits)

lemma object_id_unlink_object: "unlink_object s prev nx = Inr s1 \<Longrightarrow> object_id s1 = object_id s"
  by (auto simp: unlink_object_def touch_def split: option.splits sum.splits)

lemma object_id_unlink_template: "unlink_template s prev nx = Inr s1 \<Longrightarrow> object_id s1 = object_id s"
  by (auto simp: unlink_template_def touch_def split: option.splits sum.splits)

lemma object_id_unlink_font: "unlink_font s prev nx = Inr s1 \<Longrightarrow> object_id s1 = object_id s"
  by (auto simp: unlink_font_def touch_def split: option.splits sum.splits)

lemma add_object_to_list_scan_keeps:
  assumes "add_object_to_list_scan s c = Some r"
  shows "\<forall>p s'. r = Inr (p, s') \<longrightarrow> object_id s' = object_id s \<and> object_mem s' = object_mem s"
  using assms
  by (rule add_object_to_list_scan.raw_induct [rotated,
        where P = "\<lambda>s c r. \<forall>p s'. r = Inr (p, s') \<longrightarrow>
                     object_id s' = object_id s \<and> object_mem s' = object_mem s"])
     (auto split: sum.splits option.splits prod.splits)

lemma destroy_object_by_id_loop_keeps:
  assumes "destroy_object_by_id_loop i s cur prev = Some r"
  shows "\<forall>s'. r = Inr s' \<longrightarrow> object_id s' = object_id s"
  using assms
  by (rule destroy_object_by_id_loop.raw_induct [rotated,
        where P = "\<lambda>i s cur prev r. \<forall>s'. r = Inr s' \<longrightarrow> object_id s' = object_id s"])
     (auto split: sum.splits option.splits prod.splits if_splits dest: object_id_unlink_object)

lemma destroy_object_by_name_loop_keeps:
  assumes "destroy_object_by_name_loop nm s cur prev = Some r"
  shows "\<forall>s'. r = Inr s' \<longrightarrow> object_id s' = object_id s"
  using assms
  by (rule destroy_object_by_name_loop.raw_induct [rotated,
        where P = "\<lambda>nm s cur prev r. \<forall>s'. r = Inr s' \<longrightarrow> object_id s' = object_id s"])
     (auto split: sum.splits option.splits prod.splits if_splits dest: object_id_unlink_object)

lemma destroy_all_objects_loop_keeps:
  assumes "destroy_all_objects_loop s cur = Some r"
  shows "\<forall>s'. r = Inr s' \<longrightarrow> object_id s' = object_id s"
  using assms
  by (rule destroy_all_objects_loop.raw_induct [rotated,
        where P = "\<lambda>s cur r. \<forall>s'. r = Inr s' \<longrightarrow> object_id s' = object_id s"])
     (auto split: sum.splits option.splits prod.splits if_splits)

lemma add_object_template_to_list_scan_keeps:
  assumes "add_object_template_to_list_scan s c = Some r"
  shows "\<forall>p s'. r = Inr (p, s') \<longrightarrow> object_id s' = object_id s"
  using assms
  by (rule add_object_template_to_list_scan.raw_induct [rotated,
        where P = "\<lambda>s c r. \<forall>p s'. r = Inr (p, s') \<longrightarrow> object_id s' = object_id s"])
     (auto split: sum.splits option.splits prod.splits)

lemma load_font_scan_keeps:
  assumes "load_font_scan s c = Some r"
  shows "\<forall>p s'. r = Inr (p, s') \<longrightarrow> object_id s' = object_id s"
  using assms
  by (rule load_font_scan.raw_induct [rotated,
        where P = "\<lambda>s c r. \<forall>p s'. r = Inr (p, s') \<longrightarrow> object_id s' = object_id s"])
     (auto split: sum.splits option.splits prod.splits)

lemma destroy_object_template_loop_keeps:
  assumes "destroy_object_template_loop nm s cur prev = Some r"
  shows "\<forall>s'. r = Inr s' \<longrightarrow> object_id s' = object_id s"
  using assms
  by (rule destroy_object_template_loop.raw_induct [rotated,
        where P = "\<lambda>nm s cur prev r. \<forall>s'. r = Inr s' \<longrightarrow> object_id s' = object_id s"])
     (auto split: sum.splits option.splits prod.splits if_splits dest: object_id_unlink_template)

lemma destroy_all_templates_loop_keeps:
  assumes "destroy_all_templates_loop s cur = Some r"
  shows "\<forall>s'. r = Inr s' \<longrightarrow> object_id s' = object_id s"
  using assms
  by (rule destroy_all_templates_loop.raw_induct [rotated,
        where P = "\<lambda>s cur r. \<forall>s'. r = Inr s' \<longrightarrow> object_id s' = object_id s"])
     (auto split: sum.splits option.splits prod.splits if_splits)

lemma close_font_loop_keeps:
  assumes "close_font_loop nm s cur prev = Some r"
  shows "\<forall>s'. r = Inr s' \<longrightarrow> object_id s' = object_id s"
  using assms
  by (rule close_font_loop.raw_induct [rotated,
        where P = "\<lambda>nm s cur prev r. \<forall>s'. r = Inr s' \<longrightarrow> object_id s' = object_id s"])
     (auto split: sum.splits option.splits prod.splits if_splits dest: object_id_unlink_font)

lemma close_all_fonts_loop_keeps:
  assumes "close_all_fonts_loop s cur = Some r"
  shows "\<forall>s'. r = Inr s' \<longrightarrow> object_id s' = object_id s"
  using assms
  by (rule close_all_fonts_loop.raw_induct [rotated,
        where P = "\<lambda>s cur r. \<forall>s'. r = Inr s' \<longrightarrow> object_id s' = object_id s"])
     (auto split: sum.splits option.splits prod.splits if_splits)


lemma object_id_destroy_texture_node [simp]: "object_id (destroy_texture_node s c x) = object_id s"
  by (simp add: destroy_texture_node_def touch_def split: prod.splits)

lemma add_to_texture_list_scan_keeps:
  assumes "add_to_texture_list_scan s c = Some r"
  shows "\<forall>p s'. r = Inr (p, s') \<longrightarrow> object_id s' = object_id s"
  using assms
  by (rule add_to_texture_list_scan.raw_induct [rotated,
        where P = "\<lambda>s c r. \<forall>p s'. r = Inr (p, s') \<longrightarrow> object_id s' = object_id s"])
     (auto split: sum.splits option.splits prod.splits)

lemma destroy_all_textures_loop_keeps:
  assumes "destroy_all_textures_loop s cur = Some r"
  shows "\<forall>s'. r = Inr s' \<longrightarrow> object_id s' = object_id s"
  using assms
  by (rule destroy_all_textures_loop.raw_induct [rotated,
        where P = "\<lambda>s cur r. \<forall>s'. r = Inr s' \<longrightarrow> object_id s' = object_id s"])
     (auto split: sum.splits option.splits prod.splits if_splits)

lemma add_object_to_list_keeps:
  assumes "add_object_to_list s ob nm name_new item_new = Some (Inr s')"
  shows "object_id s' = object_id s \<and> object_mem s' = object_mem s"
  using assms
  by (auto simp: add_object_to_list_def Let_def set_next_def touch_def
           split: option.splits sum.splits prod.splits
           dest!: add_object_to_list_scan_keeps)

lemma create_object_ids:
  assumes "create_object s nm tex x y w h hb data obj_new name_new item_new = Some (Inr (p, s'))"
  shows "new_id (p, s') = [object_id s] \<and> sint (object_id s') = sint (object_id s) + 1"
proof -
  let ?ob = "\<lparr>o_id = object_id s, o_texture = tex, o_x = x, o_y = y, o_width = w,
              o_height = h, o_hitbox = hb, o_data = data\<rparr>"
  from assms have "\<exists>nid. int_add (object_id s) 1 = Some nid \<and>
      add_object_to_list (s\<lparr>object_id := nid, object_mem := (object_mem s)(p \<mapsto> Live ?ob)\<rparr>)
        p nm name_new item_new = Some (Inr s')"
    by (auto simp: create_object_def Let_def split: sum.splits option.splits)
  then obtain nid where
    nid: "int_add (object_id s) 1 = Some nid"
    and add: "add_object_to_list (s\<lparr>object_id := nid, object_mem := (object_mem s)(p \<mapsto> Live ?ob)\<rparr>)
        p nm name_new item_new = Some (Inr s')"
    by blast
  from add_object_to_list_keeps [OF add]
  have "object_id s' = nid" and "object_mem s' p = Some (Live ?ob)"
    by simp_all
  with int_add_Some [OF nid] show ?thesis
    by (simp add: new_id_def)
qed

lemma exec_ids:
  assumes "exec c s = Some (Inr (ids, s'))"
  shows "(ids = [] \<and> object_id s' = object_id s) \<or>
         (ids = [object_id s] \<and> sint (object_id s') = sint (object_id s) + 1)"
proof (cases c)
  case (Engine_init title w h f backend)
  with assms show ?thesis
    by (auto simp: returning_def engine_init_def split: option.splits sum.splits prod.splits)
next
  case (Create_object nm tex x y w h hb data obj_new name_new item_new)
  with assms show ?thesis
    by (auto simp: returning_def split: option.splits sum.splits dest: create_object_ids)
next
  case (Instantiate_object t nm x y data obj_new name_new item_new)
  with assms show ?thesis
    by (auto simp: returning_def instantiate_object_def
             split: option.splits sum.splits prod.splits dest!: create_object_ids)
next
  case (Destroy_object_by_id i)
  with assms show ?thesis
    by (auto simp: returning_def destroy_object_by_id_def
             split: option.splits sum.splits dest: destroy_object_by_id_loop_keeps)
next
  case (Destroy_object_by_name nm)
  with assms show ?thesis
    by (auto simp: returning_def destroy_object_by_name_def
             split: option.splits sum.splits dest: destroy_object_by_name_loop_keeps)
next
  case Destroy_all_objects
  with assms show ?thesis
    by (auto simp: returning_def destroy_all_objects_def
             split: option.splits sum.splits dest: destroy_all_objects_loop_keeps)
next
  case (Create_object_template nm tex w h hb tmpl_new name_new item_new)
  with assms show ?thesis
    by (auto simp: returning_def create_object_template_def add_object_template_to_list_def
               Let_def set_next_def touch_def
             split: option.splits sum.splits prod.splits
             dest!: add_object_template_to_list_scan_keeps)
next
  case (Destroy_object_template nm)
  with assms show ?thesis
    by (auto simp: returning_def destroy_object_template_def
             split: option.splits sum.splits dest: destroy_object_template_loop_keeps)
next
  case Destroy_all_templates
  with assms show ?thesis
    by (auto simp: returning_def destroy_all_templates_def
             split: option.splits sum.splits dest: destroy_all_templates_loop_keeps)
next
  case (Load_font filename sz nm font_new name_new struct_new)
  with assms show ?thesis
    by (auto simp: returning_def load_font_def Let_def set_next_def touch_def
             split: option.splits sum.splits prod.splits if_splits
             dest!: load_font_scan_keeps)
next
  case (Close_font nm)
  with assms show ?thesis
    by (auto simp: returning_def close_font_def
             split: option.splits sum.splits dest: close_font_loop_keeps)
next
  case Close_all_fonts
  with assms show ?thesis
    by (auto simp: returning_def close_all_fonts_def
             split: option.splits sum.splits dest: close_all_fonts_loop_keeps)
next
  case (Create_tilemap tw th sp rows cols new tex)
  with assms show ?thesis
    by (auto simp: returning_def create_tilemap_def split: option.splits sum.splits)
next
  case (Get_tile tm row col new)
  with assms show ?thesis
    by (auto simp: returning_def get_tile_def split: option.splits sum.splits prod.splits if_splits)
next
  case (Draw_shape call)
  with assms show ?thesis
    by (cases call)
       (auto simp: returning_def draw_line_def draw_rect_def draw_ellipse_def draw_circle_def
          draw_line_thick_def draw_rect_thick_def draw_circle_thick_def draw_ellipse_thick_def
          gfx_def SDL_SetRenderDrawColor_def Let_def split: sum.splits)
next
  case (Load_texture filename nm tex_new name_new item_new)
  with assms show ?thesis
    by (auto simp: returning_def load_texture_def add_to_texture_list_def
               Let_def set_next_def touch_def
             split: option.splits sum.splits prod.splits
             dest!: add_to_texture_list_scan_keeps)
next
  case Destroy_all_textures
  with assms show ?thesis
    by (auto simp: returning_def destroy_all_textures_def
             split: option.splits sum.splits dest: destroy_all_textures_loop_keeps)
qed

lemma run_ids:
  "run cs s = Some (Inr (ids, s')) \<Longrightarrow>
   map sint ids = map (\<lambda>k. sint (object_id s) + int k) [0..<length ids] \<and>
   sint (object_id s') = sint (object_id s) + int (length ids)"
proof (induction cs arbitrary: s ids s')
  case Nil
  then show ?case by simp
next
  case (Cons c cs)
  from Cons.prems obtain ids1 s1 ids2 where
    ex: "exec c s = Some (Inr (ids1, s1))" and
    rn: "run cs s1 = Some (Inr (ids2, s'))" and
    ids: "ids = ids1 @ ids2"
    by (auto split: option.splits sum.splits prod.splits)
  from rn have IH: "map sint ids2 = map (\<lambda>k. sint (object_id s1) + int k) [0..<length ids2]"
    "sint (object_id s') = sint (object_id s1) + int (length ids2)"
    by (auto dest: Cons.IH)
  from ex have "(ids1 = [] \<and> object_id s1 = object_id s) \<or>
         (ids1 = [object_id s] \<and> sint (object_id s1) = sint (object_id s) + 1)"
    by (rule exec_ids)
  then show ?case
  proof
    assume "ids1 = [] \<and> object_id s1 = object_id s"
    with IH ids show ?thesis by simp
  next
    assume a: "ids1 = [object_id s] \<and> sint (object_id s1) = sint (object_id s) + 1"
    have "map (\<lambda>k. sint (object_id s) + int k) [0..<Suc (length ids2)] =
          sint (object_id s) # map (\<lambda>k. sint (object_id s) + 1 + int k) [0..<length ids2]"
      by (simp add: upt_conv_Cons map_Suc_upt [symmetric] del: upt_Suc)
    with a IH ids show ?thesis by simp
  qed
qed


lemma interleaved_run:
  "\<exists>s'. run interleaved_calls initial_state = Some (Inr ([0, 1, 2, 3, 4], s'))"
  by (simp add: interleaved_calls_def create_object_def add_object_to_list_def
        assert_engine_init_def engine_init_def initial_state_def int_add_def deref_def
        set_next_def touch_def Let_def add_object_to_list_scan.simps returning_def new_id_def
        create_object_template_def add_object_template_to_list_def
        add_object_template_to_list_scan.simps instantiate_object_def
        destroy_object_by_id_def destroy_object_by_id_loop.simps
        destroy_object_by_name_def destroy_object_by_name_loop.simps
        destroy_all_objects_def destroy_all_objects_loop.simps
        unlink_object_def free_object_node_def release_def)

text \<open>
  C5. Take any sequence of calls (creations, instantiations, every destroy function,
  and the other calls that change the state), run from process start, that returns. The
  ids handed out by \<^verbatim>\<open>create_object\<close> and \<^verbatim>\<open>instantiate_object\<close> are 0, 1, 2, ... in
  the order of the calls: strictly increasing, without repeats, the first one 0; the
  counter equals the number of ids handed out. In any state, a call hands out no id and
  leaves the counter alone, or hands out the counter's value and adds one to it: nothing
  resets the counter. A sequence cut short by a fatal error or a call that does not return
  has a prefix that returns, to which this applies.
\<close>

theorem object_ids_count_up_from_zero:
  assumes "run cs initial_state = Some (Inr (ids, s'))"
  shows "map sint ids = map int [0..<length ids] \<and>
         sorted_wrt (<) (map sint ids) \<and> distinct ids \<and>
         (ids \<noteq> [] \<longrightarrow> hd ids = 0) \<and>
         sint (object_id s') = int (length ids) \<and>
         (\<forall>c s1 ids1 s2. exec c s1 = Some (Inr (ids1, s2)) \<longrightarrow>
            (ids1 = [] \<and> object_id s2 = object_id s1) \<or>
            (ids1 = [object_id s1] \<and> sint (object_id s2) = sint (object_id s1) + 1))"
proof -
  from run_ids [OF assms]
  have m: "map sint ids = map int [0..<length ids]"
    and n: "sint (object_id s') = int (length ids)"
    by (simp_all add: initial_state_def)
  have "sorted_wrt (<) (map int [0..<length ids])"
    by (simp add: sorted_wrt_map)
  with m have s: "sorted_wrt (<) (map sint ids)" by simp
  have "distinct (map int [0..<length ids])"
    by (simp add: distinct_map inj_on_def)
  with m have "distinct (map sint ids)" by simp
  then have d: "distinct ids" by (simp add: distinct_map)
  have h: "ids \<noteq> [] \<longrightarrow> hd ids = 0"
  proof
    assume ne: "ids \<noteq> []"
    then have "sint (hd ids) = hd (map sint ids)" by (simp add: hd_map)
    also from ne m have "\<dots> = 0" by (simp add: hd_map upt_conv_Cons)
    finally show "hd ids = 0" by (simp add: signed_eq_0_iff)
  qed
  from m s d h n show ?thesis
    by (auto dest: exec_ids)
qed

theorem object_ids_count_up_from_zero_witness:
  "\<exists>s' s2. run interleaved_calls initial_state = Some (Inr ([0, 1, 2, 3, 4], s')) \<and>
           sint (object_id s') = 5 \<and>
           exec Destroy_all_objects demo = Some (Inr ([], s2)) \<and>
           object_id s2 = 3"
proof -
  from interleaved_run obtain s' where
    r: "run interleaved_calls initial_state = Some (Inr ([0, 1, 2, 3, 4], s'))" ..
  have "\<exists>s2. exec Destroy_all_objects demo = Some (Inr ([], s2))"
    by (simp add: demo_def returning_def destroy_all_objects_def assert_engine_init_def
          destroy_all_objects_loop.simps deref_def free_object_node_def release_def touch_def)
  then obtain s2 where e: "exec Destroy_all_objects demo = Some (Inr ([], s2))" ..
  from object_ids_count_up_from_zero [OF r]
  have n: "sint (object_id s') = 5"
    and a: "\<forall>c s1 ids1 s2. exec c s1 = Some (Inr (ids1, s2)) \<longrightarrow>
            (ids1 = [] \<and> object_id s2 = object_id s1) \<or>
            (ids1 = [object_id s1] \<and> sint (object_id s2) = sint (object_id s1) + 1)"
    by simp_all
  from a e have "object_id s2 = object_id demo" by blast
  then have "object_id s2 = 3" by (simp add: demo_def)
  with r n e show ?thesis by blast
qed

subsection \<open>The frame loop\<close>

lemma stop_stop [simp]: "stop (stop s) = stop s"
  by (cases "engine s") (simp_all add: stop_def)

lemma running_stop [simp]: "\<not> running (stop s)"
  by (cases "engine s") (simp_all add: stop_def running_def)

lemma poll_events_est:
  "est (poll_events eh evs w) =
     (if list_ex (\<lambda>ev. ev_type ev = SDL_QUIT) evs then stop (est w) else est w)"
  by (induction evs arbitrary: w) (auto split: option.splits)

lemma poll_events_calls:
  "calls (poll_events eh evs w) =
     calls w @ (case eh of None \<Rightarrow> []
                | Some h \<Rightarrow> map Handler (filter (\<lambda>ev. ev_type ev \<noteq> SDL_QUIT) evs))"
  by (induction evs arbitrary: w) (auto split: option.splits)

lemma poll_events_game:
  "game (poll_events eh evs w) =
     (case eh of None \<Rightarrow> game w
      | Some h \<Rightarrow> fold h (filter (\<lambda>ev. ev_type ev \<noteq> SDL_QUIT) evs) (game w))"
  by (induction evs arbitrary: w) (auto split: option.splits)

lemma sint_word_of_int_small:
  "- (2 ^ 31) \<le> x \<Longrightarrow> x < 2 ^ 31 \<Longrightarrow> sint (word_of_int x :: cint) = x"
  by (simp add: sint_sbintrunc' signed_take_bit_int_eq_self)

lemma budget_bounds:
  assumes "sint f \<noteq> 0"
  shows "\<exists>bd. int_div 1000 f = Some bd \<and> - 1000 \<le> sint bd \<and> sint bd \<le> 1000"
proof -
  let ?d = "(1000 :: int) div \<bar>sint f\<bar>"
  let ?q = "sgn (1000 :: int) * sgn (sint f) * (\<bar>1000\<bar> div \<bar>sint f\<bar>)"
  from assms have pos: "0 < \<bar>sint f\<bar>" by simp
  then have "0 \<le> ?d" by (simp add: pos_imp_zdiv_nonneg_iff)
  moreover from pos have "?d \<le> 1000 div 1"
    by (intro zdiv_mono2) simp_all
  then have "?d \<le> 1000" by simp
  ultimately have b: "- 1000 \<le> ?q \<and> ?q \<le> 1000"
    by (auto simp: sgn_if)
  then have "sint (word_of_int ?q :: cint) = ?q"
    by (intro sint_word_of_int_small) simp_all
  with b assms show ?thesis
    by (simp add: int_div_def del: of_int_mult)
qed

lemma frame_returns:
  assumes e: "engine (est w) = Some e" and f: "sint (fps e) \<noteq> 0"
    and t: "0 \<le> sint (snd (snd input) - fst (snd input))"
  shows "\<exists>w'. frame update draw eh input w = Inr w' \<and>
           est w' = (if has_quit input then stop (est w) else est w)\<lparr>canvas := []\<rparr> \<and>
           iterations (calls w') = Suc (iterations (calls w))"
proof -
  obtain events t0 t1 where input: "input = (events, t0, t1)" by (cases input) auto
  let ?s = "(if has_quit input then stop (est w) else est w)\<lparr>canvas := []\<rparr>"
  from e have "\<exists>e'. engine ?s = Some e' \<and> fps e' = fps e"
    by (auto simp: stop_def)
  then obtain e' where e': "engine ?s = Some e'" "fps e' = fps e" by blast
  from f obtain bd where bd: "int_div 1000 (fps e) = Some bd" "- 1000 \<le> sint bd" "sint bd \<le> 1000"
    using budget_bounds by blast
  have sub: "int_lt (t1 - t0) bd \<Longrightarrow> \<exists>d. int_sub bd (t1 - t0) = Some d"
    using t bd unfolding input by (simp add: int_lt_def int_sub_def)
  show ?thesis
    using e' bd sub unfolding input
    by (cases draw; cases "int_lt (t1 - t0) bd")
       (auto simp: frame_def Let_def poll_events_est poll_events_calls has_quit_def iterations_def
             split: option.splits)
qed


lemma frame_keeps_stopped:
  assumes "frame update draw eh input w = Inr w'" and "running (est w')"
  shows "running (est w)"
proof -
  obtain events t0 t1 where input: "input = (events, t0, t1)" by (cases input) auto
  from assms(1) have "est w' = (est (poll_events eh events w))\<lparr>canvas := []\<rparr>"
    unfolding input
    by (cases draw) (auto simp: frame_def Let_def split: option.splits if_splits)
  with assms(2) show ?thesis
    by (auto simp: poll_events_est running_def stop_def split: if_splits option.splits)
qed

lemma engine_run_loop_stopped:
  "\<not> running (est w) \<Longrightarrow> engine_run_loop update draw eh inputs w = Some (Inr w)"
  by (cases inputs) simp_all

lemma engine_run_loop_until_quit:
  assumes "engine (est w) = Some e" and "isRunning e" and "sint (fps e) \<noteq> 0"
    and "\<forall>input \<in> set (pre @ [q]). 0 \<le> sint (snd (snd input) - fst (snd input))"
    and "\<forall>input \<in> set pre. \<not> has_quit input" and "has_quit q"
  shows "\<exists>w'. (\<forall>post. engine_run_loop update draw eh (pre @ q # post) w = Some (Inr w')) \<and>
              \<not> running (est w') \<and> engine (est w') \<noteq> None \<and>
              iterations (calls w') = iterations (calls w) + length pre + 1"
  using assms
proof (induction pre arbitrary: w)
  case Nil
  from Nil.prems(1,3,4) obtain w' where
    fr: "frame update draw eh q w = Inr w'"
    and es: "est w' = (if has_quit q then stop (est w) else est w)\<lparr>canvas := []\<rparr>"
    and it: "iterations (calls w') = Suc (iterations (calls w))"
    using frame_returns [of w e q update draw eh] by auto
  from es Nil.prems(6) have st: "\<not> running (est w')"
    by (auto simp: running_def stop_def split: option.splits)
  from es Nil.prems(1) have en: "engine (est w') \<noteq> None"
    by (auto simp: stop_def)
  from Nil.prems(1,2) have "running (est w)" by (simp add: running_def)
  with fr st have "\<forall>post. engine_run_loop update draw eh ([] @ q # post) w = Some (Inr w')"
    by (simp add: engine_run_loop_stopped)
  with st en it show ?case by auto
next
  case (Cons input pre)
  from Cons.prems(1,3,4) obtain w1 where
    fr: "frame update draw eh input w = Inr w1"
    and es: "est w1 = (if has_quit input then stop (est w) else est w)\<lparr>canvas := []\<rparr>"
    and it: "iterations (calls w1) = Suc (iterations (calls w))"
    using frame_returns [of w e input update draw eh] by auto
  from Cons.prems(5) es have "est w1 = (est w)\<lparr>canvas := []\<rparr>" by simp
  with Cons.prems(1) have e1: "engine (est w1) = Some e" by simp
  from Cons.prems(4,5) have
    "\<forall>input \<in> set (pre @ [q]). 0 \<le> sint (snd (snd input) - fst (snd input))"
    "\<forall>input \<in> set pre. \<not> has_quit input"
    by simp_all
  with e1 Cons.prems(2,3,6) obtain w' where
    all: "\<forall>post. engine_run_loop update draw eh (pre @ q # post) w1 = Some (Inr w')"
    and st: "\<not> running (est w')" and en: "engine (est w') \<noteq> None"
    and n: "iterations (calls w') = iterations (calls w1) + length pre + 1"
    using Cons.IH [of w1] by blast
  from Cons.prems(1,2) have "running (est w)" by (simp add: running_def)
  with fr all have "\<forall>post. engine_run_loop update draw eh ((input # pre) @ q # post) w = Some (Inr w')"
    by simp
  with st en n it show ?case by auto
qed

text \<open>
  C8. The event drain of an iteration, on any queue: a quit event clears
  \<^verbatim>\<open>isRunning\<close> whatever the handler is, and is not handed to it; the events handed to
  the handler are the non-quit events, all of them, in queue order (none when no handler
  was supplied). The loop: when the engine is running, the frame rate is not zero and the
  tick readings do not run backwards, and the first queue that holds a quit event is the
  one of iteration \<open>length pre + 1\<close>, the loop returns after exactly that many
  iterations, whatever input would follow, with the engine stopped; called again in
  that state it returns at once without an iteration; and no iteration turns a stopped
  engine back to running.
\<close>

theorem quit_event_stops_the_loop:
  assumes "engine (est w) = Some e" and "isRunning e" and "sint (fps e) \<noteq> 0"
    and "\<forall>input \<in> set (pre @ [q]). 0 \<le> sint (snd (snd input) - fst (snd input))"
    and "\<forall>input \<in> set pre. \<not> has_quit input" and "has_quit q"
  shows "running (est (poll_events eh evs w)) = (\<not> list_ex (\<lambda>ev. ev_type ev = SDL_QUIT) evs) \<and>
         calls (poll_events eh evs w) =
           calls w @ (case eh of None \<Rightarrow> []
                      | Some h \<Rightarrow> map Handler (filter (\<lambda>ev. ev_type ev \<noteq> SDL_QUIT) evs)) \<and>
         game (poll_events eh evs w) =
           (case eh of None \<Rightarrow> game w
            | Some h \<Rightarrow> fold h (filter (\<lambda>ev. ev_type ev \<noteq> SDL_QUIT) evs) (game w)) \<and>
         (\<exists>w'. (\<forall>post. engine_run update draw eh (pre @ q # post) w = Some (Inr w')) \<and>
               \<not> running (est w') \<and>
               iterations (calls w') = iterations (calls w) + length pre + 1 \<and>
               (\<forall>inputs. engine_run update draw eh inputs w' = Some (Inr w'))) \<and>
         (\<forall>input w1 w2. frame update draw eh input w1 = Inr w2 \<and> running (est w2) \<longrightarrow>
            running (est w1))"
proof (intro conjI)
  from assms(1,2) have r: "running (est w)" by (simp add: running_def)
  then show "running (est (poll_events eh evs w)) = (\<not> list_ex (\<lambda>ev. ev_type ev = SDL_QUIT) evs)"
    by (simp add: poll_events_est)
  show "calls (poll_events eh evs w) =
           calls w @ (case eh of None \<Rightarrow> []
                      | Some h \<Rightarrow> map Handler (filter (\<lambda>ev. ev_type ev \<noteq> SDL_QUIT) evs))"
    by (rule poll_events_calls)
  show "game (poll_events eh evs w) =
           (case eh of None \<Rightarrow> game w
            | Some h \<Rightarrow> fold h (filter (\<lambda>ev. ev_type ev \<noteq> SDL_QUIT) evs) (game w))"
    by (rule poll_events_game)
  from engine_run_loop_until_quit [OF assms, of update draw eh]
  obtain w' where
    all: "\<forall>post. engine_run_loop update draw eh (pre @ q # post) w = Some (Inr w')"
    and st: "\<not> running (est w')" and en: "engine (est w') \<noteq> None"
    and n: "iterations (calls w') = iterations (calls w) + length pre + 1"
    by blast
  from all assms(1)
  have a: "\<forall>post. engine_run update draw eh (pre @ q # post) w = Some (Inr w')"
    by (simp add: engine_run_def assert_engine_init_def)
  from st en have b: "\<forall>inputs. engine_run update draw eh inputs w' = Some (Inr w')"
    by (auto simp: engine_run_def assert_engine_init_def engine_run_loop_stopped)
  from a st n b
  show "\<exists>w'. (\<forall>post. engine_run update draw eh (pre @ q # post) w = Some (Inr w')) \<and>
               \<not> running (est w') \<and>
               iterations (calls w') = iterations (calls w) + length pre + 1 \<and>
               (\<forall>inputs. engine_run update draw eh inputs w' = Some (Inr w'))"
    by blast
  show "\<forall>input w1 w2. frame update draw eh input w1 = Inr w2 \<and> running (est w2) \<longrightarrow>
            running (est w1)"
    by (blast intro: frame_keeps_stopped)
qed

theorem quit_event_stops_the_loop_witness:
  "engine (est demo_world) =
     Some \<lparr>window = 1, renderer = 2, isRunning = True, e_width = 800, e_height = 600, fps = 60\<rparr> \<and>
   0 \<le> sint (5 - 0 :: 32 word) \<and> 0 \<le> sint (50 - 20 :: 32 word) \<and>
   \<not> has_quit ([key_event 1, key_event 2], 0, 5) \<and>
   has_quit ([key_event 3, quit_event, key_event 4], 20, 50) \<and>
   \<not> running (est (poll_events (Some log_event) [key_event 3, quit_event, key_event 4] demo_world)) \<and>
   calls (poll_events (Some log_event) [key_event 3, quit_event, key_event 4] demo_world) =
     [Handler (key_event 3), Handler (key_event 4)] \<and>
   game (poll_events (Some log_event) [key_event 3, quit_event, key_event 4] demo_world) = [3, 4] \<and>
   (\<exists>w'. engine_run id None (Some log_event) demo_frames demo_world = Some (Inr w') \<and>
         \<not> running (est w') \<and> iterations (calls w') = 2 \<and>
         engine_run id None (Some log_event) demo_frames w' = Some (Inr w'))"
proof -
  let ?e = "\<lparr>window = 1, renderer = 2, isRunning = True, e_width = 800, e_height = 600, fps = 60\<rparr>"
  let ?f1 = "([key_event 1, key_event 2], 0 :: 32 word, 5 :: 32 word)"
  let ?f2 = "([key_event 3, quit_event, key_event 4], 20 :: 32 word, 50 :: 32 word)"
  let ?evs = "[key_event 3, quit_event, key_event 4]"
  have h1: "engine (est demo_world) = Some ?e"
    by (simp add: demo_world_def demo_def)
  have h2: "isRunning ?e" by simp
  have h3: "sint (fps ?e) \<noteq> 0" by simp
  have h4: "\<forall>input \<in> set ([?f1] @ [?f2]). 0 \<le> sint (snd (snd input) - fst (snd input))"
    by simp
  have h5: "\<forall>input \<in> set [?f1]. \<not> has_quit input"
    by (simp add: has_quit_def key_event_def SDL_KEYDOWN_def SDL_QUIT_def)
  have h6: "has_quit ?f2"
    by (simp add: has_quit_def key_event_def quit_event_def SDL_KEYDOWN_def SDL_QUIT_def)
  note t = quit_event_stops_the_loop [OF h1 h2 h3 h4 h5 h6, of "Some log_event" ?evs id None]
  from t have a: "\<not> running (est (poll_events (Some log_event) ?evs demo_world))"
    by (simp add: key_event_def quit_event_def SDL_KEYDOWN_def SDL_QUIT_def)
  from t have b: "calls (poll_events (Some log_event) ?evs demo_world) =
     [Handler (key_event 3), Handler (key_event 4)]"
    by (simp add: key_event_def quit_event_def SDL_KEYDOWN_def SDL_QUIT_def demo_world_def)
  from t have c: "game (poll_events (Some log_event) ?evs demo_world) = [3, 4]"
    by (simp add: key_event_def quit_event_def SDL_KEYDOWN_def SDL_QUIT_def demo_world_def
          log_event_def)
  from t obtain w' where
    r: "\<forall>post. engine_run id None (Some log_event) ([?f1] @ ?f2 # post) demo_world = Some (Inr w')"
    and s: "\<not> running (est w')"
    and n: "iterations (calls w') = iterations (calls demo_world) + length [?f1] + 1"
    and again: "\<forall>inputs. engine_run id None (Some log_event) inputs w' = Some (Inr w')"
    by blast
  from r have "engine_run id None (Some log_event) demo_frames demo_world = Some (Inr w')"
    by (simp add: demo_frames_def)
  moreover from n have "iterations (calls w') = 2"
    by (simp add: demo_world_def iterations_def)
  moreover from again have "engine_run id None (Some log_event) demo_frames w' = Some (Inr w')"
    by blast
  ultimately have d: "\<exists>w'. engine_run id None (Some log_event) demo_frames demo_world = Some (Inr w') \<and>
         \<not> running (est w') \<and> iterations (calls w') = 2 \<and>
         engine_run id None (Some log_event) demo_frames w' = Some (Inr w')"
    using s by blast
  from h4 have k: "0 \<le> sint (5 - 0 :: 32 word)" "0 \<le> sint (50 - 20 :: 32 word)" by simp_all
  from h5 have l: "\<not> has_quit ([key_event 1, key_event 2], 0, 5)" by simp
  show ?thesis by (intro conjI h1 k l h6 a b c d)
qed

end
